theory Spec2Isabelle
  imports Main
begin

section \<open>The automaton of automata_simulator.c\<close>

text \<open>
  A shallow embedding of the core of \<^verbatim>\<open>automata_simulator.c\<close>: the registries
  (\<^verbatim>\<open>addState\<close>, \<^verbatim>\<open>addToAlphabet\<close>, \<^verbatim>\<open>addTransition\<close>), the lookup
  (\<^verbatim>\<open>findTransition\<close>) and the engine (\<^verbatim>\<open>processString\<close>).

  C \<^verbatim>\<open>int\<close> is \<open>int\<close>: every counter of the program stays below 1000, far from the
  limits of a machine integer. A fixed-size C array is the list of its slots; the
  slots at and above the count hold whatever the memory held before. A
  \<^verbatim>\<open>const char *\<close> argument is the list of the characters before its terminating NUL.
  What the program prints with \<^verbatim>\<open>printf\<close>, the two capacity errors included, is left
  out: \<^verbatim>\<open>addState\<close> reports the error in its return value as well, and \<^verbatim>\<open>addTransition\<close>
  returns nothing.
\<close>

subsection \<open>Constants and data\<close>

definition MAX_STATES :: int where "MAX_STATES = 100"
definition MAX_TRANSITIONS :: int where "MAX_TRANSITIONS = 500"
definition MAX_ALPHABET :: int where "MAX_ALPHABET = 26"
definition MAX_TRACE :: int where "MAX_TRACE = 100"
definition MAX_NAME_LEN :: nat where "MAX_NAME_LEN = 50"

text \<open>The size of \<^verbatim>\<open>char message[256]\<close> in \<^verbatim>\<open>TraceEntry\<close>.\<close>

definition MESSAGE_SIZE :: nat where "MESSAGE_SIZE = 256"

definition NUL :: char where "NUL = CHR 0x00"

text \<open>\<^verbatim>\<open>State\<close>: \<open>name\<close> is the buffer \<^verbatim>\<open>char name[MAX_NAME_LEN]\<close>, byte by byte.\<close>

record State =
  name :: "char list"
  isAccepting :: int

record Transition =
  fromState :: int
  toState :: int
  symbol :: char

record FSM =
  states :: "State list"
  stateCount :: int
  transitions :: "Transition list"
  transitionCount :: int
  initialState :: int
  currentState :: int
  alphabet :: "char list"
  alphabetSize :: int

text \<open>
  \<^verbatim>\<open>ProcessResult\<close> is a local of \<^verbatim>\<open>processString\<close>: \<open>trace\<close> holds the messages
  of the entries written so far, entry \<open>k\<close> at position \<open>k\<close>; the entries never
  written are not part of the model.
\<close>

record ProcessResult =
  accepted :: int
  trace :: "string list"
  traceCount :: int

text \<open>
  The accesses the program does not guard. A state is read through an index the
  program never validates (\<^verbatim>\<open>initialState\<close>, \<^verbatim>\<open>toState\<close>); a read outside the
  array is \<open>StateOutOfBounds\<close>. A read inside the array of a slot at or above
  \<^verbatim>\<open>stateCount\<close> returns whatever the slot holds; only the run that watches its reads
  stops there, with \<open>StateUnregistered\<close>. A \<^verbatim>\<open>%s\<close> that finds no
  NUL in a name buffer reads past it: \<open>NameUnterminated\<close>. A trace entry is written
  at \<^verbatim>\<open>traceCount\<close> with no check against \<^verbatim>\<open>MAX_TRACE\<close>: \<open>TraceOverflow\<close>; a
  message that does not fit the entry with its NUL is \<open>MessageOverflow\<close>.
  The model stops at each of them.
\<close>

datatype fault =
    StateOutOfBounds int
  | StateUnregistered int
  | NameUnterminated int
  | MessageOverflow nat
  | TraceOverflow int

subsection \<open>C strings\<close>

text \<open>The string a \<^verbatim>\<open>%s\<close> reads from a buffer: the bytes before the first NUL.\<close>

definition c_str :: "char list \<Rightarrow> string" where
  "c_str buf = takeWhile (\<lambda>c. c \<noteq> NUL) buf"

text \<open>
  \<^verbatim>\<open>strncpy(dest, src, n)\<close> writes exactly \<open>n\<close> bytes at the start of \<open>dest\<close>: the
  characters of \<open>src\<close>, at most \<open>n\<close> of them, then NULs up to \<open>n\<close>.
\<close>

definition strncpy :: "char list \<Rightarrow> string \<Rightarrow> nat \<Rightarrow> char list" where
  "strncpy dest src n = take n src @ replicate (n - length src) NUL @ drop n dest"

subsection \<open>Registries\<close>

definition initializeFSM :: "FSM \<Rightarrow> FSM" where
  "initializeFSM fsm =
     fsm\<lparr>stateCount := 0, transitionCount := 0, initialState := 0,
         currentState := 0, alphabetSize := 0\<rparr>"

text \<open>\<^verbatim>\<open>addState\<close> returns the automaton and the C return value.\<close>

definition addState :: "FSM \<Rightarrow> string \<Rightarrow> int \<Rightarrow> FSM \<times> int" where
  "addState fsm nm acc =
     (if stateCount fsm \<ge> MAX_STATES then (fsm, -1)
      else
        let idx = nat (stateCount fsm);
            slot = states fsm ! idx;
            buf = (strncpy (name slot) nm (MAX_NAME_LEN - 1))[MAX_NAME_LEN - 1 := NUL];
            slot' = slot\<lparr>name := buf, isAccepting := acc\<rparr>
        in (fsm\<lparr>states := (states fsm)[idx := slot'],
                 stateCount := stateCount fsm + 1\<rparr>,
            stateCount fsm))"

function charInAlphabet_loop :: "FSM \<Rightarrow> char \<Rightarrow> int \<Rightarrow> int" where
  "charInAlphabet_loop fsm c i =
     (if i < alphabetSize fsm then
        (if alphabet fsm ! nat i = c then 1
         else charInAlphabet_loop fsm c (i + 1))
      else 0)"
  by pat_completeness auto
termination
  by (relation "measure (\<lambda>(fsm, c, i). nat (alphabetSize fsm - i))") auto

definition charInAlphabet :: "FSM \<Rightarrow> char \<Rightarrow> int" where
  "charInAlphabet fsm c = charInAlphabet_loop fsm c 0"

definition addToAlphabet :: "FSM \<Rightarrow> char \<Rightarrow> FSM" where
  "addToAlphabet fsm c =
     (if charInAlphabet fsm c = 0 \<and> alphabetSize fsm < MAX_ALPHABET then
        fsm\<lparr>alphabet := (alphabet fsm)[nat (alphabetSize fsm) := c],
            alphabetSize := alphabetSize fsm + 1\<rparr>
      else fsm)"

definition addTransition :: "FSM \<Rightarrow> int \<Rightarrow> int \<Rightarrow> char \<Rightarrow> FSM" where
  "addTransition fsm from_s to_s c =
     (if transitionCount fsm \<ge> MAX_TRANSITIONS then fsm
      else
        let idx = nat (transitionCount fsm);
            t = (transitions fsm ! idx)\<lparr>fromState := from_s, toState := to_s, symbol := c\<rparr>
        in addToAlphabet
             (fsm\<lparr>transitions := (transitions fsm)[idx := t],
                  transitionCount := transitionCount fsm + 1\<rparr>)
             c)"

function findTransition_loop :: "FSM \<Rightarrow> int \<Rightarrow> char \<Rightarrow> int \<Rightarrow> int" where
  "findTransition_loop fsm cur c i =
     (if i < transitionCount fsm then
        (if fromState (transitions fsm ! nat i) = cur \<and>
            symbol (transitions fsm ! nat i) = c then i
         else findTransition_loop fsm cur c (i + 1))
      else -1)"
  by pat_completeness auto
termination
  by (relation "measure (\<lambda>(fsm, cur, c, i). nat (transitionCount fsm - i))") auto

definition findTransition :: "FSM \<Rightarrow> int \<Rightarrow> char \<Rightarrow> int" where
  "findTransition fsm cur c = findTransition_loop fsm cur c 0"

definition resetFSM :: "FSM \<Rightarrow> FSM" where
  "resetFSM fsm = fsm\<lparr>currentState := initialState fsm\<rparr>"

subsection \<open>The engine\<close>

text \<open>
  The read \<^verbatim>\<open>fsm->states[i]\<close>. The program compares \<open>i\<close> with nothing: a read inside
  the array returns the slot, registered or not, and a read outside it is the fault
  \<open>StateOutOfBounds\<close>. That is \<open>state_at False\<close>, and the engine of the program is the
  engine below with \<open>False\<close> for \<open>chk\<close>. With \<open>True\<close> the engine watches its reads as
  well: it stops with \<open>StateUnregistered\<close> at a read at or above \<^verbatim>\<open>stateCount\<close>, and is
  otherwise the same; it is there to state that a run reads registered states only.

  The other array reads of the program, of \<^verbatim>\<open>alphabet[i]\<close> and \<^verbatim>\<open>transitions[i]\<close> in the
  two search loops and of \<^verbatim>\<open>transitions[transIndex]\<close>, are at indices below the counts,
  which the registries keep within the arrays (\<open>counts_ok\<close> below).
\<close>

definition state_at :: "bool \<Rightarrow> FSM \<Rightarrow> int \<Rightarrow> fault + State" where
  "state_at chk fsm i =
     (if i < 0 \<or> i \<ge> MAX_STATES then Inl (StateOutOfBounds i)
      else if chk \<and> i \<ge> stateCount fsm then Inl (StateUnregistered i)
      else Inr (states fsm ! nat i))"

text \<open>The argument \<^verbatim>\<open>fsm->states[i].name\<close> of a \<^verbatim>\<open>%s\<close>.\<close>

definition name_at :: "bool \<Rightarrow> FSM \<Rightarrow> int \<Rightarrow> fault + string" where
  "name_at chk fsm i =
     (case state_at chk fsm i of
        Inl e \<Rightarrow> Inl e
      | Inr s \<Rightarrow>
          if NUL \<in> set (name s) then Inr (c_str (name s)) else Inl (NameUnterminated i))"

text \<open>The \<^verbatim>\<open>sprintf\<close> into \<^verbatim>\<open>result.trace[result.traceCount].message\<close> and the increment.\<close>

definition add_trace :: "ProcessResult \<Rightarrow> string \<Rightarrow> fault + ProcessResult" where
  "add_trace r msg =
     (if traceCount r < 0 \<or> traceCount r \<ge> MAX_TRACE then Inl (TraceOverflow (traceCount r))
      else if length msg \<ge> MESSAGE_SIZE then Inl (MessageOverflow (length msg))
      else Inr (r\<lparr>trace := trace r @ [msg], traceCount := traceCount r + 1\<rparr>))"

text \<open>The format strings of the six \<^verbatim>\<open>sprintf\<close> calls; \<open>CHR 0x27\<close> is the quote.\<close>

definition msg_start :: "string \<Rightarrow> string" where
  "msg_start nm = ''Starting at state: '' @ nm"

definition msg_not_in_alphabet :: "char \<Rightarrow> string" where
  "msg_not_in_alphabet c = ''Error: '' @ [CHR 0x27, c, CHR 0x27] @ '' not in alphabet''"

definition msg_read :: "char \<Rightarrow> string \<Rightarrow> string \<Rightarrow> string" where
  "msg_read c old new = ''Read '' @ [CHR 0x27, c, CHR 0x27] @ '': '' @ old @ '' -> '' @ new"

definition msg_no_transition :: "char \<Rightarrow> string \<Rightarrow> string" where
  "msg_no_transition c nm = ''No transition for '' @ [CHR 0x27, c, CHR 0x27] @ '' from '' @ nm"

text \<open>The check mark and the cross are three bytes each in the UTF-8 source.\<close>

definition msg_accepted :: string where
  "msg_accepted = [CHR 0xE2, CHR 0x9C, CHR 0x93] @ '' String ACCEPTED''"

definition msg_rejected :: string where
  "msg_rejected = [CHR 0xE2, CHR 0x9C, CHR 0x97] @ '' String REJECTED''"

text \<open>
  The \<^verbatim>\<open>for\<close> loop over the input. It ends in one of two ways: a \<^verbatim>\<open>return result\<close>
  inside the body (\<open>Returned\<close>), or the end of the input (\<open>Scanned\<close>).
\<close>

datatype scan_exit =
    Returned FSM ProcessResult
  | Scanned FSM ProcessResult

fun scan :: "bool \<Rightarrow> FSM \<Rightarrow> ProcessResult \<Rightarrow> string \<Rightarrow> fault + scan_exit" where
  "scan chk fsm r [] = Inr (Scanned fsm r)"
| "scan chk fsm r (c # cs) =
     (if charInAlphabet fsm c = 0 then
        (case add_trace r (msg_not_in_alphabet c) of
           Inl e \<Rightarrow> Inl e
         | Inr r' \<Rightarrow> Inr (Returned fsm r'))
      else
        let transIndex = findTransition fsm (currentState fsm) c in
        if transIndex \<ge> 0 then
          let oldState = currentState fsm;
              fsm' = fsm\<lparr>currentState := toState (transitions fsm ! nat transIndex)\<rparr>
          in (case name_at chk fsm' oldState of
                Inl e \<Rightarrow> Inl e
              | Inr old \<Rightarrow>
                  (case name_at chk fsm' (currentState fsm') of
                     Inl e \<Rightarrow> Inl e
                   | Inr new \<Rightarrow>
                       (case add_trace r (msg_read c old new) of
                          Inl e \<Rightarrow> Inl e
                        | Inr r' \<Rightarrow> scan chk fsm' r' cs)))
        else
          (case name_at chk fsm (currentState fsm) of
             Inl e \<Rightarrow> Inl e
           | Inr nm \<Rightarrow>
               (case add_trace r (msg_no_transition c nm) of
                  Inl e \<Rightarrow> Inl e
                | Inr r' \<Rightarrow> Inr (Returned fsm r'))))"

definition verdict :: "bool \<Rightarrow> FSM \<Rightarrow> ProcessResult \<Rightarrow> fault + FSM \<times> ProcessResult" where
  "verdict chk fsm r =
     (case state_at chk fsm (currentState fsm) of
        Inl e \<Rightarrow> Inl e
      | Inr s \<Rightarrow>
          let r' = r\<lparr>accepted := isAccepting s\<rparr> in
          (case add_trace r' (if accepted r' \<noteq> 0 then msg_accepted else msg_rejected) of
             Inl e \<Rightarrow> Inl e
           | Inr r'' \<Rightarrow> Inr (fsm, r'')))"

definition processString_with ::
    "bool \<Rightarrow> FSM \<Rightarrow> string \<Rightarrow> fault + FSM \<times> ProcessResult" where
  "processString_with chk fsm input =
     (let r0 = \<lparr>accepted = 0, trace = [], traceCount = 0\<rparr>;
          fsm0 = resetFSM fsm
      in case name_at chk fsm0 (currentState fsm0) of
           Inl e \<Rightarrow> Inl e
         | Inr nm \<Rightarrow>
             (case add_trace r0 (msg_start nm) of
                Inl e \<Rightarrow> Inl e
              | Inr r1 \<Rightarrow>
                  (case scan chk fsm0 r1 input of
                     Inl e \<Rightarrow> Inl e
                   | Inr (Returned fsm1 r2) \<Rightarrow> Inr (fsm1, r2)
                   | Inr (Scanned fsm1 r2) \<Rightarrow> verdict chk fsm1 r2)))"

text \<open>\<^verbatim>\<open>processString\<close> as the program runs it, and the run that watches its reads.\<close>

definition processString :: "FSM \<Rightarrow> string \<Rightarrow> fault + FSM \<times> ProcessResult" where
  "processString fsm input = processString_with False fsm input"

definition processString_checked :: "FSM \<Rightarrow> string \<Rightarrow> fault + FSM \<times> ProcessResult" where
  "processString_checked fsm input = processString_with True fsm input"

definition createSampleFSM :: "FSM \<Rightarrow> FSM" where
  "createSampleFSM fsm =
     (let fsm0 = initializeFSM fsm;
          (fsm1, q0) = addState fsm0 ''q0'' 0;
          (fsm2, q1) = addState fsm1 ''q1'' 0;
          (fsm3, q2) = addState fsm2 ''q2'' 1;
          fsm4 = addTransition fsm3 q0 q1 (CHR ''a'');
          fsm5 = addTransition fsm4 q1 q2 (CHR ''b'');
          fsm6 = addTransition fsm5 q2 q0 (CHR ''c'')
      in fsm6\<lparr>initialState := q0, currentState := q0\<rparr>)"

text \<open>An automaton in zeroed memory, and the sample automaton built there.\<close>

definition blankFSM :: FSM where
  "blankFSM =
     \<lparr>states = replicate 100 \<lparr>name = replicate 50 NUL, isAccepting = 0\<rparr>,
      stateCount = 0,
      transitions = replicate 500 \<lparr>fromState = 0, toState = 0, symbol = NUL\<rparr>,
      transitionCount = 0,
      initialState = 0,
      currentState = 0,
      alphabet = replicate 26 NUL,
      alphabetSize = 0\<rparr>"

definition sampleFSM :: FSM where
  "sampleFSM = createSampleFSM blankFSM"

text \<open>
  An automaton without states, in zeroed memory, and one whose only transition leads
  from slot 0 to slot 7: neither slot was ever registered.
\<close>

definition emptyFSM :: FSM where
  "emptyFSM = initializeFSM blankFSM"

definition strayFSM :: FSM where
  "strayFSM = addTransition emptyFSM 0 7 (CHR ''a'')"

subsection \<open>Well-formed automata\<close>

text \<open>
  \<open>fsm_layout\<close> is what the C types fix: the three arrays have \<^verbatim>\<open>MAX_STATES\<close>,
  \<^verbatim>\<open>MAX_TRANSITIONS\<close> and \<^verbatim>\<open>MAX_ALPHABET\<close> slots and every name buffer has
  \<^verbatim>\<open>MAX_NAME_LEN\<close> bytes. \<open>counts_ok\<close> is what \<^verbatim>\<open>initializeFSM\<close> establishes and
  the registries keep: each count lies between 0 and the size of its array.
\<close>

definition fsm_layout :: "FSM \<Rightarrow> bool" where
  "fsm_layout fsm \<longleftrightarrow>
     int (length (states fsm)) = MAX_STATES \<and>
     int (length (transitions fsm)) = MAX_TRANSITIONS \<and>
     int (length (alphabet fsm)) = MAX_ALPHABET \<and>
     list_all (\<lambda>s. length (name s) = MAX_NAME_LEN) (states fsm)"

definition counts_ok :: "FSM \<Rightarrow> bool" where
  "counts_ok fsm \<longleftrightarrow>
     0 \<le> stateCount fsm \<and> stateCount fsm \<le> MAX_STATES \<and>
     0 \<le> transitionCount fsm \<and> transitionCount fsm \<le> MAX_TRANSITIONS \<and>
     0 \<le> alphabetSize fsm \<and> alphabetSize fsm \<le> MAX_ALPHABET"

text \<open>Transition \<open>k\<close> leaves state \<open>cur\<close> on symbol \<open>c\<close>: the test of \<^verbatim>\<open>findTransition\<close>.\<close>

definition matches :: "FSM \<Rightarrow> int \<Rightarrow> char \<Rightarrow> int \<Rightarrow> bool" where
  "matches fsm cur c k \<longleftrightarrow>
     fromState (transitions fsm ! nat k) = cur \<and> symbol (transitions fsm ! nat k) = c"

text \<open>
  The registered symbols, in registration order, and what one \<^verbatim>\<open>addToAlphabet\<close>
  does to them. \<open>addTransitions\<close> runs a sequence of \<^verbatim>\<open>addTransition\<close> calls.
\<close>

definition alphabet_syms :: "FSM \<Rightarrow> char list" where
  "alphabet_syms fsm = take (nat (alphabetSize fsm)) (alphabet fsm)"

definition register_sym :: "char list \<Rightarrow> char \<Rightarrow> char list" where
  "register_sym syms c =
     (if c \<in> set syms \<or> int (length syms) \<ge> MAX_ALPHABET then syms else syms @ [c])"

definition addTransitions :: "FSM \<Rightarrow> (int \<times> int \<times> char) list \<Rightarrow> FSM" where
  "addTransitions fsm calls = foldl (\<lambda>f (a, b, c). addTransition f a b c) fsm calls"

text \<open>
  The registered states and transitions: the slots below the counts. Every name that
  \<^verbatim>\<open>addState\<close> stores ends in a NUL; \<open>names_terminated\<close> says so of the registered
  states. \<open>state_info\<close> lists their names and accepting flags.
\<close>

definition registered_states :: "FSM \<Rightarrow> State list" where
  "registered_states fsm = take (nat (stateCount fsm)) (states fsm)"

definition registered_transitions :: "FSM \<Rightarrow> Transition list" where
  "registered_transitions fsm = take (nat (transitionCount fsm)) (transitions fsm)"

definition names_terminated :: "FSM \<Rightarrow> bool" where
  "names_terminated fsm \<longleftrightarrow> list_all (\<lambda>s. NUL \<in> set (name s)) (registered_states fsm)"

definition well_formed :: "FSM \<Rightarrow> bool" where
  "well_formed fsm \<longleftrightarrow> fsm_layout fsm \<and> counts_ok fsm \<and> names_terminated fsm"

definition state_info :: "FSM \<Rightarrow> (string \<times> int) list" where
  "state_info fsm = map (\<lambda>s. (c_str (name s), isAccepting s)) (registered_states fsm)"

text \<open>
  Valid indices: the initial state and the destination of every registered transition
  are indices of registered states. \<open>cursor_ok\<close> says the same of the cursor.
\<close>

definition valid_indices :: "FSM \<Rightarrow> bool" where
  "valid_indices fsm \<longleftrightarrow>
     0 \<le> initialState fsm \<and> initialState fsm < stateCount fsm \<and>
     list_all (\<lambda>t. 0 \<le> toState t \<and> toState t < stateCount fsm)
       (take (nat (transitionCount fsm)) (transitions fsm))"

definition cursor_ok :: "FSM \<Rightarrow> bool" where
  "cursor_ok fsm \<longleftrightarrow> 0 \<le> currentState fsm \<and> currentState fsm < stateCount fsm"

text \<open>
  The same two conditions for the whole array instead of its registered part: every
  slot of \<^verbatim>\<open>states\<close> holds a name that ends in a NUL, as in zeroed memory, and the
  initial state and the destinations of the registered transitions are indices of the
  array.
\<close>

definition slots_terminated :: "FSM \<Rightarrow> bool" where
  "slots_terminated fsm \<longleftrightarrow> list_all (\<lambda>s. NUL \<in> set (name s)) (states fsm)"

definition indices_in_array :: "FSM \<Rightarrow> bool" where
  "indices_in_array fsm \<longleftrightarrow>
     0 \<le> initialState fsm \<and> initialState fsm < MAX_STATES \<and>
     list_all (\<lambda>t. 0 \<le> toState t \<and> toState t < MAX_STATES)
       (take (nat (transitionCount fsm)) (transitions fsm))"

subsection \<open>Runs of the engine\<close>

text \<open>
  \<open>start_result\<close> is the result after the first \<^verbatim>\<open>sprintf\<close> of \<^verbatim>\<open>processString\<close>, from
  which the loop starts. The input is scanned to its end when the loop over it ends
  with \<open>Scanned\<close>. It is rejected at index \<open>i\<close> when the loop over the first \<open>i\<close>
  characters ends with \<open>Scanned\<close> and the character at \<open>i\<close> takes one of the two
  \<^verbatim>\<open>return\<close>s of the body: it is not in the alphabet, or \<^verbatim>\<open>findTransition\<close> is negative.
\<close>

definition start_result :: "FSM \<Rightarrow> ProcessResult" where
  "start_result fsm =
     \<lparr>accepted = 0,
      trace = [msg_start (c_str (name (states fsm ! nat (initialState fsm))))],
      traceCount = 1\<rparr>"

definition scans_all :: "FSM \<Rightarrow> string \<Rightarrow> bool" where
  "scans_all fsm input \<longleftrightarrow>
     (case scan False (resetFSM fsm) (start_result fsm) input of
        Inr (Scanned g r) \<Rightarrow> True
      | _ \<Rightarrow> False)"

definition rejects_at :: "FSM \<Rightarrow> string \<Rightarrow> nat \<Rightarrow> bool" where
  "rejects_at fsm input i \<longleftrightarrow>
     i < length input \<and>
     (case scan False (resetFSM fsm) (start_result fsm) (take i input) of
        Inr (Scanned g r) \<Rightarrow>
          charInAlphabet g (input ! i) = 0 \<or>
          findTransition g (currentState g) (input ! i) < 0
      | _ \<Rightarrow> False)"

fun exit_fsm :: "scan_exit \<Rightarrow> FSM" where
  "exit_fsm (Returned g r) = g"
| "exit_fsm (Scanned g r) = g"

fun exit_result :: "scan_exit \<Rightarrow> ProcessResult" where
  "exit_result (Returned g r) = r"
| "exit_result (Scanned g r) = r"

definition trace_of :: "fault + FSM \<times> ProcessResult \<Rightarrow> string list option" where
  "trace_of x = (case x of Inl e \<Rightarrow> None | Inr (fsm, r) \<Rightarrow> Some (trace r))"

subsection \<open>Example automata\<close>

text \<open>
  The zeroed automaton with every state slot registered, the one with a full transition
  table, an automaton with two transitions from state 0 on \<open>a\<close>, and a name of 60
  characters.
\<close>

definition fullStatesFSM :: FSM where
  "fullStatesFSM = blankFSM\<lparr>stateCount := MAX_STATES\<rparr>"

definition fullTransitionsFSM :: FSM where
  "fullTransitionsFSM = blankFSM\<lparr>transitionCount := MAX_TRANSITIONS\<rparr>"

definition dupFSM :: FSM where
  "dupFSM =
     addTransition
       (addTransition (initializeFSM blankFSM) 0 1 (CHR ''a'')) 0 2 (CHR ''a'')"

definition longName :: string where
  "longName = ''aaaaaaaaaabbbbbbbbbbccccccccccddddddddddeeeeeeeeeeffffffffff''"

text \<open>
  What \<^verbatim>\<open>createSampleFSM\<close> builds: states q0, q1 and q2 with only q2 accepting, the
  transitions q0 -a-> q1, q1 -b-> q2 and q2 -c-> q0, the alphabet a, b, c, initial
  state q0.
\<close>

definition sample_shape :: "FSM \<Rightarrow> bool" where
  "sample_shape g \<longleftrightarrow>
     well_formed g \<and>
     stateCount g = 3 \<and> transitionCount g = 3 \<and> initialState g = 0 \<and>
     state_info g = [(''q0'', 0), (''q1'', 0), (''q2'', 1)] \<and>
     registered_transitions g =
       [\<lparr>fromState = 0, toState = 1, symbol = CHR ''a''\<rparr>,
        \<lparr>fromState = 1, toState = 2, symbol = CHR ''b''\<rparr>,
        \<lparr>fromState = 2, toState = 0, symbol = CHR ''c''\<rparr>] \<and>
     alphabet_syms g = ''abc''"

text \<open>
  Twenty-seven calls of \<^verbatim>\<open>addTransition\<close> with twenty-seven symbols; an input of
  98 characters, thirty-two times \<open>abc\<close> and then \<open>ab\<close>; and the three records that
  one round \<open>abc\<close> of the sample automaton adds to the trace.
\<close>

definition calls27 :: "(int \<times> int \<times> char) list" where
  "calls27 = map (\<lambda>c. (0, 0, c)) ''abcdefghijklmnopqrstuvwxyzA''"

definition input98 :: string where
  "input98 = concat (replicate 32 ''abc'') @ ''ab''"

definition cycle_records :: "string list" where
  "cycle_records = [''Read 'a': q0 -> q1'', ''Read 'b': q1 -> q2'', ''Read 'c': q2 -> q0'']"

section \<open>The loops\<close>

declare charInAlphabet_loop.simps [simp del]
declare findTransition_loop.simps [simp del]

lemmas max_defs = MAX_STATES_def MAX_TRANSITIONS_def MAX_ALPHABET_def MAX_TRACE_def
  MAX_NAME_LEN_def

lemma charInAlphabet_loop_iff:
  "0 \<le> i \<Longrightarrow>
   charInAlphabet_loop fsm c i =
     (if \<exists>k. i \<le> k \<and> k < alphabetSize fsm \<and> alphabet fsm ! nat k = c then 1 else 0)"
proof (induction fsm c i rule: charInAlphabet_loop.induct)
  case (1 fsm c i)
  show ?case
  proof (cases "i < alphabetSize fsm")
    case False
    then show ?thesis by (simp add: charInAlphabet_loop.simps [of fsm c i])
  next
    case inr: True
    show ?thesis
    proof (cases "alphabet fsm ! nat i = c")
      case True
      with inr "1.prems" show ?thesis
        by (auto simp: charInAlphabet_loop.simps [of fsm c i])
    next
      case False
      have step: "charInAlphabet_loop fsm c i = charInAlphabet_loop fsm c (i + 1)"
        using inr False by (simp add: charInAlphabet_loop.simps [of fsm c i])
      have "(\<exists>k. i \<le> k \<and> k < alphabetSize fsm \<and> alphabet fsm ! nat k = c) \<longleftrightarrow>
            (\<exists>k. i + 1 \<le> k \<and> k < alphabetSize fsm \<and> alphabet fsm ! nat k = c)"
      proof
        assume "\<exists>k. i \<le> k \<and> k < alphabetSize fsm \<and> alphabet fsm ! nat k = c"
        then obtain k where k: "i \<le> k" "k < alphabetSize fsm" "alphabet fsm ! nat k = c"
          by blast
        with False have "k \<noteq> i" by auto
        with k show "\<exists>k. i + 1 \<le> k \<and> k < alphabetSize fsm \<and> alphabet fsm ! nat k = c"
          by (intro exI [of _ k]) simp
      next
        assume "\<exists>k. i + 1 \<le> k \<and> k < alphabetSize fsm \<and> alphabet fsm ! nat k = c"
        then obtain k where k: "i + 1 \<le> k" "k < alphabetSize fsm" "alphabet fsm ! nat k = c"
          by blast
        then show "\<exists>k. i \<le> k \<and> k < alphabetSize fsm \<and> alphabet fsm ! nat k = c"
          by (intro exI [of _ k]) simp
      qed
      with step "1.IH" [OF inr False] "1.prems" show ?thesis by simp
    qed
  qed
qed

lemma charInAlphabet_iff:
  "charInAlphabet fsm c =
     (if \<exists>k. 0 \<le> k \<and> k < alphabetSize fsm \<and> alphabet fsm ! nat k = c then 1 else 0)"
  unfolding charInAlphabet_def by (rule charInAlphabet_loop_iff) simp

lemma findTransition_loop_none:
  "0 \<le> i \<Longrightarrow> \<forall>k. i \<le> k \<and> k < transitionCount fsm \<longrightarrow> \<not> matches fsm cur c k \<Longrightarrow>
   findTransition_loop fsm cur c i = -1"
proof (induction fsm cur c i rule: findTransition_loop.induct)
  case (1 fsm cur c i)
  show ?case
  proof (cases "i < transitionCount fsm")
    case False
    then show ?thesis by (simp add: findTransition_loop.simps [of fsm cur c i])
  next
    case True
    with "1.prems" have nm: "\<not> matches fsm cur c i" by simp
    then have "findTransition_loop fsm cur c i = findTransition_loop fsm cur c (i + 1)"
      using True by (auto simp: findTransition_loop.simps [of fsm cur c i] matches_def)
    moreover have "findTransition_loop fsm cur c (i + 1) = -1"
      using "1.IH" True nm "1.prems" by (auto simp: matches_def)
    ultimately show ?thesis by simp
  qed
qed

lemma findTransition_loop_first:
  "i \<le> k \<Longrightarrow> k < transitionCount fsm \<Longrightarrow> matches fsm cur c k \<Longrightarrow>
   \<forall>j. i \<le> j \<and> j < k \<longrightarrow> \<not> matches fsm cur c j \<Longrightarrow>
   findTransition_loop fsm cur c i = k"
proof (induction fsm cur c i rule: findTransition_loop.induct)
  case (1 fsm cur c i)
  from "1.prems" have inr: "i < transitionCount fsm" by simp
  show ?case
  proof (cases "i = k")
    case True
    from "1.prems" have "findTransition_loop fsm cur c k = k"
      by (simp add: findTransition_loop.simps [of fsm cur c k] matches_def)
    with True show ?thesis by simp
  next
    case False
    with "1.prems" have lt: "i < k" by simp
    with "1.prems" have nm: "\<not> matches fsm cur c i" by simp
    then have "findTransition_loop fsm cur c i = findTransition_loop fsm cur c (i + 1)"
      using inr by (auto simp: findTransition_loop.simps [of fsm cur c i] matches_def)
    moreover have "findTransition_loop fsm cur c (i + 1) = k"
      using "1.IH" inr nm lt "1.prems" by (auto simp: matches_def)
    ultimately show ?thesis by simp
  qed
qed

lemma findTransition_loop_range:
  "0 \<le> i \<Longrightarrow>
   findTransition_loop fsm cur c i = -1 \<or>
   (i \<le> findTransition_loop fsm cur c i \<and>
    findTransition_loop fsm cur c i < transitionCount fsm \<and>
    matches fsm cur c (findTransition_loop fsm cur c i))"
proof (induction fsm cur c i rule: findTransition_loop.induct)
  case (1 fsm cur c i)
  show ?case
  proof (cases "i < transitionCount fsm")
    case False
    then show ?thesis by (simp add: findTransition_loop.simps [of fsm cur c i])
  next
    case inr: True
    show ?thesis
    proof (cases "matches fsm cur c i")
      case True
      with inr show ?thesis
        by (simp add: findTransition_loop.simps [of fsm cur c i] matches_def)
    next
      case False
      then have step: "findTransition_loop fsm cur c i = findTransition_loop fsm cur c (i + 1)"
        using inr by (auto simp: findTransition_loop.simps [of fsm cur c i] matches_def)
      from "1.IH" inr False "1.prems"
      have "findTransition_loop fsm cur c (i + 1) = -1 \<or>
        (i + 1 \<le> findTransition_loop fsm cur c (i + 1) \<and>
         findTransition_loop fsm cur c (i + 1) < transitionCount fsm \<and>
         matches fsm cur c (findTransition_loop fsm cur c (i + 1)))"
        by (auto simp: matches_def)
      with step show ?thesis by auto
    qed
  qed
qed

section \<open>The alphabet registry\<close>

lemma charInAlphabet_syms:
  assumes "0 \<le> alphabetSize fsm" "alphabetSize fsm \<le> int (length (alphabet fsm))"
  shows "charInAlphabet fsm c = (if c \<in> set (alphabet_syms fsm) then 1 else 0)"
proof -
  have "(\<exists>k. 0 \<le> k \<and> k < alphabetSize fsm \<and> alphabet fsm ! nat k = c) \<longleftrightarrow>
        c \<in> set (alphabet_syms fsm)"
  proof
    assume "\<exists>k. 0 \<le> k \<and> k < alphabetSize fsm \<and> alphabet fsm ! nat k = c"
    then obtain k where k: "0 \<le> k" "k < alphabetSize fsm" "alphabet fsm ! nat k = c"
      by blast
    with assms have "nat k < length (alphabet_syms fsm)"
      by (simp add: alphabet_syms_def)
    moreover from k have "alphabet_syms fsm ! nat k = c"
      by (simp add: alphabet_syms_def)
    ultimately show "c \<in> set (alphabet_syms fsm)"
      using nth_mem by blast
  next
    assume "c \<in> set (alphabet_syms fsm)"
    then obtain n where n: "n < length (alphabet_syms fsm)" "alphabet_syms fsm ! n = c"
      by (auto simp: in_set_conv_nth)
    then have "0 \<le> int n \<and> int n < alphabetSize fsm \<and> alphabet fsm ! nat (int n) = c"
      by (auto simp: alphabet_syms_def)
    then show "\<exists>k. 0 \<le> k \<and> k < alphabetSize fsm \<and> alphabet fsm ! nat k = c"
      by blast
  qed
  then show ?thesis by (simp add: charInAlphabet_iff)
qed

lemma charInAlphabet_wf:
  "fsm_layout fsm \<Longrightarrow> counts_ok fsm \<Longrightarrow>
   charInAlphabet fsm c = (if c \<in> set (alphabet_syms fsm) then 1 else 0)"
  by (rule charInAlphabet_syms) (simp_all add: fsm_layout_def counts_ok_def)

lemma addToAlphabet_layout: "fsm_layout fsm \<Longrightarrow> fsm_layout (addToAlphabet fsm c)"
  by (simp add: addToAlphabet_def fsm_layout_def)

lemma addToAlphabet_counts: "counts_ok fsm \<Longrightarrow> counts_ok (addToAlphabet fsm c)"
  by (simp add: addToAlphabet_def counts_ok_def)

lemma addToAlphabet_syms:
  assumes "fsm_layout fsm" "counts_ok fsm"
  shows "alphabet_syms (addToAlphabet fsm c) = register_sym (alphabet_syms fsm) c"
proof -
  from assms have "nat (alphabetSize fsm) \<le> length (alphabet fsm)"
    unfolding fsm_layout_def counts_ok_def by linarith
  then have len: "length (alphabet_syms fsm) = nat (alphabetSize fsm)"
    by (simp add: alphabet_syms_def)
  show ?thesis
  proof (cases "charInAlphabet fsm c = 0 \<and> alphabetSize fsm < MAX_ALPHABET")
    case False
    with assms len show ?thesis
      by (auto simp: addToAlphabet_def register_sym_def charInAlphabet_wf counts_ok_def
               split: if_splits)
  next
    case True
    with assms have notin: "c \<notin> set (alphabet_syms fsm)"
      by (auto simp: charInAlphabet_wf split: if_splits)
    from True assms have lt: "nat (alphabetSize fsm) < length (alphabet fsm)"
      unfolding fsm_layout_def counts_ok_def by linarith
    from assms have "nat (alphabetSize fsm + 1) = Suc (nat (alphabetSize fsm))"
      unfolding counts_ok_def by linarith
    with lt have "alphabet_syms (addToAlphabet fsm c) = alphabet_syms fsm @ [c]"
      using True by (simp add: addToAlphabet_def alphabet_syms_def take_Suc_conv_app_nth)
    with notin True len assms show ?thesis
      by (simp add: register_sym_def counts_ok_def)
  qed
qed

lemma addTransition_full:
  "transitionCount fsm \<ge> MAX_TRANSITIONS \<Longrightarrow> addTransition fsm a b c = fsm"
  by (simp add: addTransition_def)

lemma addTransition_layout: "fsm_layout fsm \<Longrightarrow> fsm_layout (addTransition fsm a b c)"
proof -
  assume lay: "fsm_layout fsm"
  then have "fsm_layout (fsm\<lparr>transitions := (transitions fsm)[nat (transitionCount fsm) :=
               (transitions fsm ! nat (transitionCount fsm))
                 \<lparr>fromState := a, toState := b, symbol := c\<rparr>],
             transitionCount := transitionCount fsm + 1\<rparr>)"
    by (simp add: fsm_layout_def)
  with lay show ?thesis
    by (simp add: addTransition_def Let_def addToAlphabet_layout)
qed

lemma addTransition_counts: "counts_ok fsm \<Longrightarrow> counts_ok (addTransition fsm a b c)"
proof -
  assume ok: "counts_ok fsm"
  show ?thesis
  proof (cases "transitionCount fsm \<ge> MAX_TRANSITIONS")
    case True
    with ok show ?thesis by (simp add: addTransition_full)
  next
    case False
    with ok have "counts_ok (fsm\<lparr>transitions := (transitions fsm)[nat (transitionCount fsm) :=
               (transitions fsm ! nat (transitionCount fsm))
                 \<lparr>fromState := a, toState := b, symbol := c\<rparr>],
             transitionCount := transitionCount fsm + 1\<rparr>)"
      by (simp add: counts_ok_def)
    with False show ?thesis
      by (simp add: addTransition_def Let_def addToAlphabet_counts)
  qed
qed

lemma addTransition_syms:
  assumes "fsm_layout fsm" "counts_ok fsm"
  shows "alphabet_syms (addTransition fsm a b c) =
           (if transitionCount fsm \<ge> MAX_TRANSITIONS then alphabet_syms fsm
            else register_sym (alphabet_syms fsm) c)"
proof (cases "transitionCount fsm \<ge> MAX_TRANSITIONS")
  case True
  then show ?thesis by (simp add: addTransition_full)
next
  case False
  let ?g = "fsm\<lparr>transitions := (transitions fsm)[nat (transitionCount fsm) :=
               (transitions fsm ! nat (transitionCount fsm))
                 \<lparr>fromState := a, toState := b, symbol := c\<rparr>],
             transitionCount := transitionCount fsm + 1\<rparr>"
  from assms False have "fsm_layout ?g" "counts_ok ?g"
    by (simp_all add: fsm_layout_def counts_ok_def)
  then have "alphabet_syms (addToAlphabet ?g c) = register_sym (alphabet_syms ?g) c"
    by (rule addToAlphabet_syms)
  moreover have "alphabet_syms ?g = alphabet_syms fsm"
    by (simp add: alphabet_syms_def)
  ultimately show ?thesis
    using False by (simp add: addTransition_def Let_def)
qed

lemma addTransition_transitionCount:
  "transitionCount (addTransition fsm a b c) =
     (if transitionCount fsm \<ge> MAX_TRANSITIONS then transitionCount fsm
      else transitionCount fsm + 1)"
  by (simp add: addTransition_def addToAlphabet_def Let_def)

subsection \<open>Sequences of calls\<close>

lemma syms_length:
  assumes "fsm_layout fsm" "counts_ok fsm"
  shows "int (length (alphabet_syms fsm)) = alphabetSize fsm"
proof -
  from assms have "nat (alphabetSize fsm) \<le> length (alphabet fsm)" "0 \<le> alphabetSize fsm"
    unfolding fsm_layout_def counts_ok_def by linarith+
  then show ?thesis by (simp add: alphabet_syms_def)
qed

lemma addTransitions_Nil [simp]: "addTransitions fsm [] = fsm"
  by (simp add: addTransitions_def)

lemma addTransitions_Cons [simp]:
  "addTransitions fsm ((a, b, c) # calls) = addTransitions (addTransition fsm a b c) calls"
  by (simp add: addTransitions_def)

lemma addTransitions_append:
  "addTransitions fsm (pre @ post) = addTransitions (addTransitions fsm pre) post"
  by (simp add: addTransitions_def)

lemma addTransitions_wf:
  "fsm_layout fsm \<Longrightarrow> counts_ok fsm \<Longrightarrow>
   fsm_layout (addTransitions fsm calls) \<and> counts_ok (addTransitions fsm calls)"
proof (induction calls arbitrary: fsm)
  case Nil
  then show ?case by simp
next
  case (Cons x calls)
  obtain a b c where x: "x = (a, b, c)" by (cases x)
  from Cons.prems have "fsm_layout (addTransition fsm a b c)" "counts_ok (addTransition fsm a b c)"
    by (simp_all add: addTransition_layout addTransition_counts)
  then show ?case
    unfolding x addTransitions_Cons by (rule Cons.IH)
qed

lemma syms_step:
  assumes "fsm_layout fsm" "counts_ok fsm"
  shows "set (alphabet_syms fsm) \<subseteq> set (alphabet_syms (addTransition fsm a b c))"
    and "set (alphabet_syms (addTransition fsm a b c)) \<subseteq> insert c (set (alphabet_syms fsm))"
  by (auto simp: addTransition_syms [OF assms] register_sym_def)

lemma syms_grow:
  "fsm_layout fsm \<Longrightarrow> counts_ok fsm \<Longrightarrow>
   set (alphabet_syms fsm) \<subseteq> set (alphabet_syms (addTransitions fsm calls))"
proof (induction calls arbitrary: fsm)
  case Nil
  then show ?case by simp
next
  case (Cons x calls)
  obtain a b c where x: "x = (a, b, c)" by (cases x)
  from Cons.prems have wf: "fsm_layout (addTransition fsm a b c)"
    "counts_ok (addTransition fsm a b c)"
    by (simp_all add: addTransition_layout addTransition_counts)
  from syms_step(1) [OF Cons.prems] Cons.IH [OF wf] show ?case
    unfolding x addTransitions_Cons by blast
qed

lemma syms_only_passed:
  "fsm_layout fsm \<Longrightarrow> counts_ok fsm \<Longrightarrow>
   set (alphabet_syms (addTransitions fsm calls)) \<subseteq>
     set (alphabet_syms fsm) \<union> (\<lambda>(a, b, c). c) ` set calls"
proof (induction calls arbitrary: fsm)
  case Nil
  then show ?case by simp
next
  case (Cons x calls)
  obtain a b c where x: "x = (a, b, c)" by (cases x)
  from Cons.prems have wf: "fsm_layout (addTransition fsm a b c)"
    "counts_ok (addTransition fsm a b c)"
    by (simp_all add: addTransition_layout addTransition_counts)
  from syms_step(2) [OF Cons.prems, of a b c] Cons.IH [OF wf] show ?case
    unfolding x addTransitions_Cons by auto
qed

lemma syms_registered:
  assumes "fsm_layout fsm" "counts_ok fsm" "transitionCount fsm < MAX_TRANSITIONS"
    and "charInAlphabet fsm c = 1 \<or> alphabetSize fsm < MAX_ALPHABET"
  shows "c \<in> set (alphabet_syms (addTransition fsm a b c))"
  using assms(3,4) syms_length [OF assms(1,2)]
  by (auto simp: addTransition_syms [OF assms(1,2)] register_sym_def
        charInAlphabet_wf [OF assms(1,2)] split: if_splits)

lemma addTransitions_syms:
  "fsm_layout fsm \<Longrightarrow> counts_ok fsm \<Longrightarrow>
   transitionCount fsm + int (length calls) \<le> MAX_TRANSITIONS \<Longrightarrow>
   alphabet_syms (addTransitions fsm calls) =
     foldl register_sym (alphabet_syms fsm) (map (\<lambda>(a, b, c). c) calls)"
proof (induction calls arbitrary: fsm)
  case Nil
  then show ?case by simp
next
  case (Cons x calls)
  obtain a b c where x: "x = (a, b, c)" by (cases x)
  from Cons.prems have lt: "transitionCount fsm < MAX_TRANSITIONS" by simp
  from Cons.prems have wf: "fsm_layout (addTransition fsm a b c)"
    "counts_ok (addTransition fsm a b c)"
    by (simp_all add: addTransition_layout addTransition_counts)
  from Cons.prems lt have
    "transitionCount (addTransition fsm a b c) + int (length calls) \<le> MAX_TRANSITIONS"
    by (simp add: addTransition_transitionCount)
  from Cons.IH [OF wf this] lt show ?case
    unfolding x addTransitions_Cons
    by (simp add: addTransition_syms [OF Cons.prems(1,2)])
qed

lemma fresh_alphabet: "charInAlphabet (initializeFSM fsm) s = 0"
  by (simp add: charInAlphabet_iff initializeFSM_def)

section \<open>The state registry\<close>

lemma c_str_append_NUL:
  "NUL \<notin> set s \<Longrightarrow> c_str (s @ NUL # rest) = s"
  by (induction s) (auto simp: c_str_def)

lemma name_buffer:
  assumes "length old = MAX_NAME_LEN"
  shows "(strncpy old nm (MAX_NAME_LEN - 1))[MAX_NAME_LEN - 1 := NUL] =
           take (MAX_NAME_LEN - 1) nm @
           NUL # replicate (MAX_NAME_LEN - 1 - length nm) NUL"
proof -
  let ?p = "take (MAX_NAME_LEN - 1) nm @ replicate (MAX_NAME_LEN - 1 - length nm) NUL"
  have lp: "length ?p = MAX_NAME_LEN - 1"
    by (simp add: MAX_NAME_LEN_def)
  from assms have "MAX_NAME_LEN - 1 < length old"
    by (simp add: MAX_NAME_LEN_def)
  then have "old ! (MAX_NAME_LEN - 1) # drop (Suc (MAX_NAME_LEN - 1)) old =
             drop (MAX_NAME_LEN - 1) old"
    by (rule Cons_nth_drop_Suc)
  with assms have "drop (MAX_NAME_LEN - 1) old = [old ! (MAX_NAME_LEN - 1)]"
    by (simp add: MAX_NAME_LEN_def)
  then have "strncpy old nm (MAX_NAME_LEN - 1) = ?p @ [old ! (MAX_NAME_LEN - 1)]"
    by (simp add: strncpy_def)
  then have "(strncpy old nm (MAX_NAME_LEN - 1))[MAX_NAME_LEN - 1 := NUL] =
        (?p @ [old ! (MAX_NAME_LEN - 1)])[length ?p := NUL]"
    using lp by simp
  also have "\<dots> = ?p @ [NUL]"
    by (simp only: list_update_length)
  also have "\<dots> = take (MAX_NAME_LEN - 1) nm @
       (replicate (MAX_NAME_LEN - 1 - length nm) NUL @ [NUL])"
    by simp
  also have "replicate (MAX_NAME_LEN - 1 - length nm) NUL @ [NUL] =
       NUL # replicate (MAX_NAME_LEN - 1 - length nm) NUL"
    by (rule replicate_append_same)
  finally show ?thesis .
qed

lemma name_buffer_length:
  "length old = MAX_NAME_LEN \<Longrightarrow>
   length ((strncpy old nm (MAX_NAME_LEN - 1))[MAX_NAME_LEN - 1 := NUL]) = MAX_NAME_LEN"
  by (simp add: strncpy_def MAX_NAME_LEN_def)

lemma name_buffer_last:
  assumes "length old = MAX_NAME_LEN"
  shows "(strncpy old nm (MAX_NAME_LEN - 1))[MAX_NAME_LEN - 1 := NUL] ! (MAX_NAME_LEN - 1) = NUL"
proof -
  from assms have "MAX_NAME_LEN - 1 < length (strncpy old nm (MAX_NAME_LEN - 1))"
    by (simp add: strncpy_def MAX_NAME_LEN_def)
  then show ?thesis by (rule nth_list_update_eq)
qed

lemma name_buffer_c_str:
  assumes "length old = MAX_NAME_LEN" "NUL \<notin> set nm"
  shows "c_str ((strncpy old nm (MAX_NAME_LEN - 1))[MAX_NAME_LEN - 1 := NUL]) =
           take (MAX_NAME_LEN - 1) nm"
proof -
  from assms(2) have "NUL \<notin> set (take (MAX_NAME_LEN - 1) nm)"
    by (auto dest: in_set_takeD)
  then have "c_str (take (MAX_NAME_LEN - 1) nm @
               NUL # replicate (MAX_NAME_LEN - 1 - length nm) NUL) =
             take (MAX_NAME_LEN - 1) nm"
    by (rule c_str_append_NUL)
  with name_buffer [OF assms(1)] show ?thesis by simp
qed

lemma addState_full: "stateCount fsm \<ge> MAX_STATES \<Longrightarrow> addState fsm nm acc = (fsm, -1)"
  by (simp add: addState_def)

lemma addState_snd:
  "stateCount fsm < MAX_STATES \<Longrightarrow> snd (addState fsm nm acc) = stateCount fsm"
  by (simp add: addState_def Let_def)

lemma addState_fields:
  "stateCount fsm < MAX_STATES \<Longrightarrow>
   stateCount (fst (addState fsm nm acc)) = stateCount fsm + 1 \<and>
   fst (addState fsm nm acc)\<lparr>states := states fsm, stateCount := stateCount fsm\<rparr> = fsm"
  by (simp add: addState_def Let_def)

lemma layout_state_index:
  "fsm_layout fsm \<Longrightarrow> 0 \<le> i \<Longrightarrow> i < MAX_STATES \<Longrightarrow> nat i < length (states fsm)"
  unfolding fsm_layout_def by linarith

lemma layout_name_length:
  "fsm_layout fsm \<Longrightarrow> 0 \<le> i \<Longrightarrow> i < MAX_STATES \<Longrightarrow>
   length (name (states fsm ! nat i)) = MAX_NAME_LEN"
proof -
  assume lay: "fsm_layout fsm" and i: "0 \<le> i" "i < MAX_STATES"
  then have "states fsm ! nat i \<in> set (states fsm)"
    by (intro nth_mem layout_state_index)
  with lay show ?thesis
    by (simp add: fsm_layout_def list_all_iff)
qed

lemma addState_new_slot:
  assumes "fsm_layout fsm" "0 \<le> stateCount fsm" "stateCount fsm < MAX_STATES"
  shows "states (fst (addState fsm nm acc)) ! nat (stateCount fsm) =
           (states fsm ! nat (stateCount fsm))
             \<lparr>name := (strncpy (name (states fsm ! nat (stateCount fsm))) nm
                         (MAX_NAME_LEN - 1))[MAX_NAME_LEN - 1 := NUL],
              isAccepting := acc\<rparr>"
  using assms layout_state_index [OF assms]
  by (simp add: addState_def Let_def)

lemma addState_old_slots:
  assumes "0 \<le> k" "k < stateCount fsm"
  shows "states (fst (addState fsm nm acc)) ! nat k = states fsm ! nat k"
proof (cases "stateCount fsm < MAX_STATES")
  case False
  then show ?thesis by (simp add: addState_full)
next
  case True
  from assms have "nat (stateCount fsm) \<noteq> nat k" by linarith
  with True show ?thesis by (simp add: addState_def Let_def)
qed

lemma addState_layout:
  assumes "fsm_layout fsm" "0 \<le> stateCount fsm"
  shows "fsm_layout (fst (addState fsm nm acc))"
proof (cases "stateCount fsm < MAX_STATES")
  case False
  with assms show ?thesis by (simp add: addState_full)
next
  case True
  let ?slot = "states fsm ! nat (stateCount fsm)"
  let ?buf = "(strncpy (name ?slot) nm (MAX_NAME_LEN - 1))[MAX_NAME_LEN - 1 := NUL]"
  from assms True have "length (name ?slot) = MAX_NAME_LEN"
    by (rule layout_name_length)
  then have len: "length ?buf = MAX_NAME_LEN"
    by (rule name_buffer_length)
  have "list_all (\<lambda>s. length (name s) = MAX_NAME_LEN)
          ((states fsm)[nat (stateCount fsm) := ?slot\<lparr>name := ?buf, isAccepting := acc\<rparr>])"
    unfolding list_all_iff
  proof
    fix s assume "s \<in> set ((states fsm)[nat (stateCount fsm) :=
                     ?slot\<lparr>name := ?buf, isAccepting := acc\<rparr>])"
    then have "s = ?slot\<lparr>name := ?buf, isAccepting := acc\<rparr> \<or> s \<in> set (states fsm)"
      using set_update_subset_insert by fastforce
    with len assms(1) show "length (name s) = MAX_NAME_LEN"
      by (auto simp: fsm_layout_def list_all_iff)
  qed
  with assms(1) True show ?thesis
    by (simp add: addState_def Let_def fsm_layout_def)
qed

lemma addState_counts: "counts_ok fsm \<Longrightarrow> counts_ok (fst (addState fsm nm acc))"
  by (simp add: addState_def Let_def counts_ok_def)

lemma blank_layout: "fsm_layout blankFSM"
  by (simp add: fsm_layout_def blankFSM_def max_defs list_all_iff)

lemma blank_counts: "counts_ok blankFSM"
  by (simp add: counts_ok_def blankFSM_def max_defs)

lemma initialize_layout: "fsm_layout fsm \<Longrightarrow> fsm_layout (initializeFSM fsm)"
  by (simp add: fsm_layout_def initializeFSM_def)

lemma initialize_counts: "counts_ok (initializeFSM fsm)"
  by (simp add: counts_ok_def initializeFSM_def max_defs)

subsection \<open>Registered states and transitions\<close>

lemma registered_state_nth:
  "0 \<le> i \<Longrightarrow> i < stateCount fsm \<Longrightarrow> states fsm ! nat i = registered_states fsm ! nat i"
  by (simp add: registered_states_def)

lemma registered_transition_nth:
  "0 \<le> i \<Longrightarrow> i < transitionCount fsm \<Longrightarrow>
   transitions fsm ! nat i = registered_transitions fsm ! nat i"
  by (simp add: registered_transitions_def)

lemma addState_registered:
  assumes "fsm_layout fsm" "0 \<le> stateCount fsm" "stateCount fsm < MAX_STATES"
  shows "registered_states (fst (addState fsm nm acc)) =
           registered_states fsm @
           [(states fsm ! nat (stateCount fsm))
              \<lparr>name := (strncpy (name (states fsm ! nat (stateCount fsm))) nm
                          (MAX_NAME_LEN - 1))[MAX_NAME_LEN - 1 := NUL],
               isAccepting := acc\<rparr>]"
proof -
  from assms have lt: "nat (stateCount fsm) < length (states fsm)"
    by (rule layout_state_index)
  from assms(2) have suc: "nat (stateCount fsm + 1) = Suc (nat (stateCount fsm))"
    by linarith
  from assms(3) lt show ?thesis
    by (simp add: registered_states_def addState_def Let_def suc take_Suc_conv_app_nth)
qed

lemma addState_other_fields:
  "transitions (fst (addState fsm nm acc)) = transitions fsm \<and>
   transitionCount (fst (addState fsm nm acc)) = transitionCount fsm \<and>
   alphabet (fst (addState fsm nm acc)) = alphabet fsm \<and>
   alphabetSize (fst (addState fsm nm acc)) = alphabetSize fsm \<and>
   initialState (fst (addState fsm nm acc)) = initialState fsm \<and>
   currentState (fst (addState fsm nm acc)) = currentState fsm"
  by (simp add: addState_def Let_def)

lemma addTransition_other_fields:
  "states (addTransition fsm a b c) = states fsm \<and>
   stateCount (addTransition fsm a b c) = stateCount fsm \<and>
   initialState (addTransition fsm a b c) = initialState fsm \<and>
   currentState (addTransition fsm a b c) = currentState fsm"
  by (simp add: addTransition_def addToAlphabet_def Let_def)

lemma addTransition_registered:
  assumes "fsm_layout fsm" "0 \<le> transitionCount fsm" "transitionCount fsm < MAX_TRANSITIONS"
  shows "registered_transitions (addTransition fsm a b c) =
           registered_transitions fsm @ [\<lparr>fromState = a, toState = b, symbol = c\<rparr>]"
proof -
  from assms have lt: "nat (transitionCount fsm) < length (transitions fsm)"
    unfolding fsm_layout_def by linarith
  from assms(2) have suc: "nat (transitionCount fsm + 1) = Suc (nat (transitionCount fsm))"
    by linarith
  have "(transitions fsm ! nat (transitionCount fsm))
          \<lparr>fromState := a, toState := b, symbol := c\<rparr> =
        \<lparr>fromState = a, toState = b, symbol = c\<rparr>"
    by simp
  with assms(3) lt show ?thesis
    by (simp add: registered_transitions_def addTransition_def addToAlphabet_def Let_def suc
          take_Suc_conv_app_nth)
qed

lemma initialize_well_formed: "fsm_layout fsm \<Longrightarrow> well_formed (initializeFSM fsm)"
  by (simp add: well_formed_def initialize_layout initialize_counts)
     (simp add: names_terminated_def registered_states_def initializeFSM_def)

lemma blank_well_formed: "well_formed blankFSM"
  by (simp add: well_formed_def blank_layout blank_counts)
     (simp add: names_terminated_def registered_states_def blankFSM_def)

lemma addState_well_formed:
  assumes "well_formed fsm"
  shows "well_formed (fst (addState fsm nm acc))"
proof (cases "stateCount fsm < MAX_STATES")
  case False
  with assms show ?thesis by (simp add: addState_full)
next
  case True
  from assms have lay: "fsm_layout fsm" and cnt: "counts_ok fsm"
    and nt: "names_terminated fsm"
    by (simp_all add: well_formed_def)
  from cnt have nn: "0 \<le> stateCount fsm"
    by (simp add: counts_ok_def)
  have old: "length (name (states fsm ! nat (stateCount fsm))) = MAX_NAME_LEN"
    using lay nn True by (rule layout_name_length)
  have "NUL \<in> set ((strncpy (name (states fsm ! nat (stateCount fsm))) nm
                 (MAX_NAME_LEN - 1))[MAX_NAME_LEN - 1 := NUL])"
    unfolding name_buffer [OF old] by simp
  with nt have "names_terminated (fst (addState fsm nm acc))"
    by (simp add: names_terminated_def addState_registered [OF lay nn True])
  with addState_layout [OF lay nn] addState_counts [OF cnt] show ?thesis
    by (simp add: well_formed_def)
qed

lemma addTransition_well_formed:
  assumes "well_formed fsm"
  shows "well_formed (addTransition fsm a b c)"
proof -
  from assms have lay: "fsm_layout fsm" and cnt: "counts_ok fsm"
    and nt: "names_terminated fsm"
    by (simp_all add: well_formed_def)
  from nt have "names_terminated (addTransition fsm a b c)"
    by (simp add: names_terminated_def registered_states_def addTransition_other_fields)
  with addTransition_layout [OF lay] addTransition_counts [OF cnt] show ?thesis
    by (simp add: well_formed_def)
qed

lemma fresh_blank:
  "fsm_layout (initializeFSM blankFSM)" "counts_ok (initializeFSM blankFSM)"
  "transitionCount (initializeFSM blankFSM) = 0" "alphabetSize (initializeFSM blankFSM) = 0"
  "alphabet_syms (initializeFSM blankFSM) = []"
  by (simp_all add: initialize_layout blank_layout initialize_counts)
     (simp_all add: initializeFSM_def alphabet_syms_def)

lemma addState_effect:
  assumes "well_formed fsm" "stateCount fsm < MAX_STATES" "NUL \<notin> set nm"
    and "length nm < MAX_NAME_LEN"
  shows "snd (addState fsm nm acc) = stateCount fsm"
    and "well_formed (fst (addState fsm nm acc))"
    and "stateCount (fst (addState fsm nm acc)) = stateCount fsm + 1"
    and "state_info (fst (addState fsm nm acc)) = state_info fsm @ [(nm, acc)]"
    and "transitionCount (fst (addState fsm nm acc)) = transitionCount fsm"
    and "registered_transitions (fst (addState fsm nm acc)) = registered_transitions fsm"
    and "alphabet_syms (fst (addState fsm nm acc)) = alphabet_syms fsm"
    and "initialState (fst (addState fsm nm acc)) = initialState fsm"
proof -
  from assms(1) have lay: "fsm_layout fsm" and cnt: "counts_ok fsm"
    by (simp_all add: well_formed_def)
  from cnt have nn: "0 \<le> stateCount fsm"
    by (simp add: counts_ok_def)
  let ?buf = "(strncpy (name (states fsm ! nat (stateCount fsm))) nm
                 (MAX_NAME_LEN - 1))[MAX_NAME_LEN - 1 := NUL]"
  note reg = addState_registered [OF lay nn assms(2)]
  show "snd (addState fsm nm acc) = stateCount fsm"
    using assms(2) by (rule addState_snd)
  have old: "length (name (states fsm ! nat (stateCount fsm))) = MAX_NAME_LEN"
    using lay nn assms(2) by (rule layout_name_length)
  show "well_formed (fst (addState fsm nm acc))"
    using assms(1) by (rule addState_well_formed)
  show "stateCount (fst (addState fsm nm acc)) = stateCount fsm + 1"
    using addState_fields [OF assms(2)] by simp
  from assms(4) have "take (MAX_NAME_LEN - 1) nm = nm" by simp
  with name_buffer_c_str [OF old assms(3)] have "c_str ?buf = nm"
    by simp
  then show "state_info (fst (addState fsm nm acc)) = state_info fsm @ [(nm, acc)]"
    by (simp add: state_info_def reg)
  show "transitionCount (fst (addState fsm nm acc)) = transitionCount fsm"
    "initialState (fst (addState fsm nm acc)) = initialState fsm"
    by (simp_all add: addState_other_fields)
  show "registered_transitions (fst (addState fsm nm acc)) = registered_transitions fsm"
    by (simp add: registered_transitions_def addState_other_fields)
  show "alphabet_syms (fst (addState fsm nm acc)) = alphabet_syms fsm"
    by (simp add: alphabet_syms_def addState_other_fields)
qed

lemma addTransition_effect:
  assumes "well_formed fsm" "transitionCount fsm < MAX_TRANSITIONS"
  shows "well_formed (addTransition fsm a b c)"
    and "stateCount (addTransition fsm a b c) = stateCount fsm"
    and "state_info (addTransition fsm a b c) = state_info fsm"
    and "transitionCount (addTransition fsm a b c) = transitionCount fsm + 1"
    and "registered_transitions (addTransition fsm a b c) =
           registered_transitions fsm @ [\<lparr>fromState = a, toState = b, symbol = c\<rparr>]"
    and "alphabet_syms (addTransition fsm a b c) = register_sym (alphabet_syms fsm) c"
    and "initialState (addTransition fsm a b c) = initialState fsm"
proof -
  from assms(1) have lay: "fsm_layout fsm" and cnt: "counts_ok fsm"
    by (simp_all add: well_formed_def)
  from cnt have nn: "0 \<le> transitionCount fsm"
    by (simp add: counts_ok_def)
  show "well_formed (addTransition fsm a b c)"
    using assms(1) by (rule addTransition_well_formed)
  show "stateCount (addTransition fsm a b c) = stateCount fsm"
    "initialState (addTransition fsm a b c) = initialState fsm"
    by (simp_all add: addTransition_other_fields)
  show "state_info (addTransition fsm a b c) = state_info fsm"
    by (simp add: state_info_def registered_states_def addTransition_other_fields)
  show "transitionCount (addTransition fsm a b c) = transitionCount fsm + 1"
    using assms(2) by (simp add: addTransition_transitionCount)
  show "registered_transitions (addTransition fsm a b c) =
           registered_transitions fsm @ [\<lparr>fromState = a, toState = b, symbol = c\<rparr>]"
    using lay nn assms(2) by (rule addTransition_registered)
  show "alphabet_syms (addTransition fsm a b c) = register_sym (alphabet_syms fsm) c"
    using assms(2) by (simp add: addTransition_syms [OF lay cnt])
qed

lemma views_cursor [simp]:
  "state_info (fsm\<lparr>currentState := x\<rparr>) = state_info fsm"
  "registered_transitions (fsm\<lparr>currentState := x\<rparr>) = registered_transitions fsm"
  "alphabet_syms (fsm\<lparr>currentState := x\<rparr>) = alphabet_syms fsm"
  by (simp_all add: state_info_def registered_states_def registered_transitions_def
        alphabet_syms_def)

lemma views_initial [simp]:
  "well_formed (fsm\<lparr>initialState := x\<rparr>) = well_formed fsm"
  "state_info (fsm\<lparr>initialState := x\<rparr>) = state_info fsm"
  "registered_transitions (fsm\<lparr>initialState := x\<rparr>) = registered_transitions fsm"
  "alphabet_syms (fsm\<lparr>initialState := x\<rparr>) = alphabet_syms fsm"
  by (simp_all add: well_formed_def fsm_layout_def counts_ok_def names_terminated_def
        state_info_def registered_states_def registered_transitions_def alphabet_syms_def)

section \<open>Capacity of the registries\<close>

text \<open>
  Claim C6. When \<^verbatim>\<open>stateCount\<close> has reached \<^verbatim>\<open>MAX_STATES\<close>, \<^verbatim>\<open>addState\<close> returns -1
  and the automaton is the one it was given. Below the maximum it returns the old
  \<^verbatim>\<open>stateCount\<close> as the index of the new state, the count grows by one, the slot at
  that index carries the accepting flag, every state registered before is untouched and
  no other field of the automaton changes.
\<close>

theorem addState_capacity:
  "(stateCount fsm \<ge> MAX_STATES \<longrightarrow> addState fsm nm acc = (fsm, -1)) \<and>
   (fsm_layout fsm \<and> 0 \<le> stateCount fsm \<and> stateCount fsm < MAX_STATES \<longrightarrow>
      snd (addState fsm nm acc) = stateCount fsm \<and>
      stateCount (fst (addState fsm nm acc)) = stateCount fsm + 1 \<and>
      isAccepting (states (fst (addState fsm nm acc)) ! nat (stateCount fsm)) = acc \<and>
      (\<forall>k. 0 \<le> k \<and> k < stateCount fsm \<longrightarrow>
         states (fst (addState fsm nm acc)) ! nat k = states fsm ! nat k) \<and>
      fst (addState fsm nm acc)\<lparr>states := states fsm, stateCount := stateCount fsm\<rparr> = fsm)"
  by (simp add: addState_full addState_snd addState_fields addState_new_slot
        addState_old_slots)

theorem addState_capacity_witness:
  "addState fullStatesFSM ''q'' 1 = (fullStatesFSM, -1) \<and>
   stateCount fullStatesFSM = MAX_STATES \<and>
   snd (addState blankFSM ''q0'' 1) = 0 \<and>
   stateCount (fst (addState blankFSM ''q0'' 1)) = 1 \<and>
   isAccepting (states (fst (addState blankFSM ''q0'' 1)) ! 0) = 1"
proof -
  have full: "stateCount fullStatesFSM \<ge> MAX_STATES"
    by (simp add: fullStatesFSM_def)
  have room: "fsm_layout blankFSM \<and> 0 \<le> stateCount blankFSM \<and> stateCount blankFSM < MAX_STATES"
    by (simp add: blank_layout) (simp add: blankFSM_def MAX_STATES_def)
  have sc: "stateCount blankFSM = 0"
    by (simp add: blankFSM_def)
  from addState_capacity [of fullStatesFSM "''q''" 1] full
  have "addState fullStatesFSM ''q'' 1 = (fullStatesFSM, -1)" by blast
  moreover from addState_capacity [of blankFSM "''q0''" 1] room
  have "snd (addState blankFSM ''q0'' 1) = stateCount blankFSM \<and>
      stateCount (fst (addState blankFSM ''q0'' 1)) = stateCount blankFSM + 1 \<and>
      isAccepting (states (fst (addState blankFSM ''q0'' 1)) ! nat (stateCount blankFSM)) = 1"
    by blast
  ultimately show ?thesis
    using sc by (simp add: fullStatesFSM_def)
qed

text \<open>
  Claim C7. When \<^verbatim>\<open>transitionCount\<close> has reached \<^verbatim>\<open>MAX_TRANSITIONS\<close>,
  \<^verbatim>\<open>addTransition\<close> returns the automaton it was given: no transition is appended,
  the count stays and the symbol is not registered in the alphabet.
\<close>

theorem addTransition_capacity:
  "transitionCount fsm \<ge> MAX_TRANSITIONS \<Longrightarrow>
   addTransition fsm a b c = fsm \<and>
   transitionCount (addTransition fsm a b c) = transitionCount fsm \<and>
   charInAlphabet (addTransition fsm a b c) c = charInAlphabet fsm c"
  by (simp add: addTransition_full)

theorem addTransition_capacity_witness:
  "transitionCount fullTransitionsFSM = MAX_TRANSITIONS \<and>
   addTransition fullTransitionsFSM 0 1 (CHR ''x'') = fullTransitionsFSM \<and>
   charInAlphabet (addTransition fullTransitionsFSM 0 1 (CHR ''x'')) (CHR ''x'') = 0"
proof -
  have full: "transitionCount fullTransitionsFSM \<ge> MAX_TRANSITIONS"
    by (simp add: fullTransitionsFSM_def)
  have "charInAlphabet fullTransitionsFSM (CHR ''x'') = 0"
    by (simp add: charInAlphabet_iff fullTransitionsFSM_def blankFSM_def)
  with addTransition_capacity [OF full, of 0 1 "CHR ''x''"] show ?thesis
    by (simp add: fullTransitionsFSM_def)
qed

section \<open>Lookup\<close>

text \<open>
  Claim C8. \<^verbatim>\<open>findTransition\<close> returns -1 when no registered transition matches the
  state and the symbol, and otherwise the smallest index of a matching transition, so
  the transition registered first wins among duplicates; its result is -1 or the index
  of a registered, matching transition.
\<close>

theorem findTransition_first_match:
  "((\<forall>k. 0 \<le> k \<and> k < transitionCount fsm \<longrightarrow> \<not> matches fsm cur c k) \<longrightarrow>
      findTransition fsm cur c = -1) \<and>
   (\<forall>k. 0 \<le> k \<and> k < transitionCount fsm \<and> matches fsm cur c k \<and>
        (\<forall>j. 0 \<le> j \<and> j < k \<longrightarrow> \<not> matches fsm cur c j) \<longrightarrow>
      findTransition fsm cur c = k) \<and>
   (findTransition fsm cur c = -1 \<or>
    (0 \<le> findTransition fsm cur c \<and> findTransition fsm cur c < transitionCount fsm \<and>
     matches fsm cur c (findTransition fsm cur c)))"
proof (intro conjI impI allI)
  assume "\<forall>k. 0 \<le> k \<and> k < transitionCount fsm \<longrightarrow> \<not> matches fsm cur c k"
  then show "findTransition fsm cur c = -1"
    unfolding findTransition_def by (intro findTransition_loop_none) simp_all
next
  fix k
  assume "0 \<le> k \<and> k < transitionCount fsm \<and> matches fsm cur c k \<and>
        (\<forall>j. 0 \<le> j \<and> j < k \<longrightarrow> \<not> matches fsm cur c j)"
  then show "findTransition fsm cur c = k"
    unfolding findTransition_def by (intro findTransition_loop_first) simp_all
next
  show "findTransition fsm cur c = -1 \<or>
    (0 \<le> findTransition fsm cur c \<and> findTransition fsm cur c < transitionCount fsm \<and>
     matches fsm cur c (findTransition fsm cur c))"
    unfolding findTransition_def by (rule findTransition_loop_range) simp
qed

lemma dupFSM_transitions:
  "transitionCount dupFSM = 2 \<and>
   transitions dupFSM ! 0 = \<lparr>fromState = 0, toState = 1, symbol = CHR ''a''\<rparr> \<and>
   transitions dupFSM ! Suc 0 = \<lparr>fromState = 0, toState = 2, symbol = CHR ''a''\<rparr>"
  by (simp add: dupFSM_def addTransition_def addToAlphabet_def Let_def initializeFSM_def
        blankFSM_def max_defs)

theorem findTransition_first_match_witness:
  "matches dupFSM 0 (CHR ''a'') 0 \<and> matches dupFSM 0 (CHR ''a'') 1 \<and>
   findTransition dupFSM 0 (CHR ''a'') = 0 \<and>
   findTransition dupFSM 1 (CHR ''a'') = -1"
proof -
  have m0: "matches dupFSM 0 (CHR ''a'') 0" and m1: "matches dupFSM 0 (CHR ''a'') 1"
    by (simp_all add: matches_def dupFSM_transitions)
  have first: "0 \<le> (0::int) \<and> 0 < transitionCount dupFSM \<and> matches dupFSM 0 (CHR ''a'') 0 \<and>
        (\<forall>j. 0 \<le> j \<and> j < (0::int) \<longrightarrow> \<not> matches dupFSM 0 (CHR ''a'') j)"
    using m0 by (auto simp: dupFSM_transitions)
  have none: "\<forall>k. 0 \<le> k \<and> k < transitionCount dupFSM \<longrightarrow> \<not> matches dupFSM 1 (CHR ''a'') k"
  proof (intro allI impI)
    fix k :: int assume "0 \<le> k \<and> k < transitionCount dupFSM"
    then have "k = 0 \<or> k = 1" by (auto simp: dupFSM_transitions)
    then show "\<not> matches dupFSM 1 (CHR ''a'') k"
      by (auto simp: matches_def dupFSM_transitions)
  qed
  from findTransition_first_match [of dupFSM 0 "CHR ''a''"] first
  have "findTransition dupFSM 0 (CHR ''a'') = 0" by blast
  moreover from findTransition_first_match [of dupFSM 1 "CHR ''a''"] none
  have "findTransition dupFSM 1 (CHR ''a'') = -1" by blast
  ultimately show ?thesis using m0 m1 by simp
qed

section \<open>State names\<close>

text \<open>
  Claim C10. With room in the state registry, \<^verbatim>\<open>addState\<close> succeeds whatever the
  length of the name: the buffer of the new state has \<^verbatim>\<open>MAX_NAME_LEN\<close> bytes, its last
  byte is NUL, and the string it holds is the first
  \<open>min (length nm) (MAX_NAME_LEN - 1)\<close> characters of the name.
\<close>

theorem addState_name_truncated:
  assumes "fsm_layout fsm" "0 \<le> stateCount fsm" "stateCount fsm < MAX_STATES"
    and "NUL \<notin> set nm"
  shows "snd (addState fsm nm acc) = stateCount fsm \<and>
         length (name (states (fst (addState fsm nm acc)) ! nat (stateCount fsm))) =
           MAX_NAME_LEN \<and>
         name (states (fst (addState fsm nm acc)) ! nat (stateCount fsm)) ! (MAX_NAME_LEN - 1) =
           NUL \<and>
         c_str (name (states (fst (addState fsm nm acc)) ! nat (stateCount fsm))) =
           take (min (length nm) (MAX_NAME_LEN - 1)) nm"
proof -
  have old: "length (name (states fsm ! nat (stateCount fsm))) = MAX_NAME_LEN"
    using assms(1-3) by (rule layout_name_length)
  have tk: "take (min (length nm) (MAX_NAME_LEN - 1)) nm = take (MAX_NAME_LEN - 1) nm"
    by (simp add: min_def)
  have slot: "name (states (fst (addState fsm nm acc)) ! nat (stateCount fsm)) =
      (strncpy (name (states fsm ! nat (stateCount fsm))) nm
         (MAX_NAME_LEN - 1))[MAX_NAME_LEN - 1 := NUL]"
    by (simp add: addState_new_slot [OF assms(1-3)])
  show ?thesis
    unfolding slot tk
    using addState_snd [OF assms(3)] name_buffer_length [OF old] name_buffer_last [OF old]
      name_buffer_c_str [OF old assms(4)]
    by simp
qed

theorem addState_name_truncated_witness:
  "length longName = 60 \<and>
   snd (addState blankFSM longName 1) = 0 \<and>
   length (name (states (fst (addState blankFSM longName 1)) ! 0)) = 50 \<and>
   name (states (fst (addState blankFSM longName 1)) ! 0) ! 49 = NUL \<and>
   c_str (name (states (fst (addState blankFSM longName 1)) ! 0)) =
     ''aaaaaaaaaabbbbbbbbbbccccccccccddddddddddeeeeeeeee''"
proof -
  have sc: "stateCount blankFSM = 0"
    by (simp add: blankFSM_def)
  have h: "0 \<le> stateCount blankFSM" "stateCount blankFSM < MAX_STATES"
    by (simp_all add: sc MAX_STATES_def)
  have n: "NUL \<notin> set longName"
    by (simp add: longName_def NUL_def)
  from addState_name_truncated [OF blank_layout h n, of 1] show ?thesis
    by (simp add: sc MAX_NAME_LEN_def) (simp add: longName_def)
qed

section \<open>The engine\<close>

subsection \<open>Reads and writes that do not fault\<close>

lemma state_at_ok:
  "counts_ok fsm \<Longrightarrow> 0 \<le> i \<Longrightarrow> i < stateCount fsm \<Longrightarrow>
   state_at chk fsm i = Inr (states fsm ! nat i)"
  by (simp add: state_at_def counts_ok_def)

lemma add_trace_ok:
  "0 \<le> traceCount r \<Longrightarrow> traceCount r < MAX_TRACE \<Longrightarrow> length msg < MESSAGE_SIZE \<Longrightarrow>
   add_trace r msg = Inr (r\<lparr>trace := trace r @ [msg], traceCount := traceCount r + 1\<rparr>)"
  by (simp add: add_trace_def)

lemma add_trace_Inr:
  "add_trace r msg = Inr r' \<Longrightarrow>
   r' = r\<lparr>trace := trace r @ [msg], traceCount := traceCount r + 1\<rparr>"
  by (auto simp: add_trace_def split: if_splits)

lemma c_str_shorter:
  assumes "NUL \<in> set buf"
  shows "length (c_str buf) < length buf"
proof -
  from assms have "dropWhile (\<lambda>c. c \<noteq> NUL) buf \<noteq> []"
    by (auto simp: dropWhile_eq_Nil_conv)
  then have "0 < length (dropWhile (\<lambda>c. c \<noteq> NUL) buf)"
    by simp
  moreover have "length (takeWhile (\<lambda>c. c \<noteq> NUL) buf) +
      length (dropWhile (\<lambda>c. c \<noteq> NUL) buf) = length buf"
    by (metis length_append takeWhile_dropWhile_id)
  ultimately show ?thesis
    unfolding c_str_def by linarith
qed

lemma registered_name:
  assumes "fsm_layout fsm" "counts_ok fsm" "names_terminated fsm"
    and "0 \<le> i" "i < stateCount fsm"
  shows "NUL \<in> set (name (states fsm ! nat i))"
    and "length (c_str (name (states fsm ! nat i))) < MAX_NAME_LEN"
proof -
  from assms(1,2) have "nat (stateCount fsm) \<le> length (states fsm)"
    unfolding fsm_layout_def counts_ok_def by linarith
  with assms(4,5) have "nat i < length (registered_states fsm)"
    by (simp add: registered_states_def)
  then have "registered_states fsm ! nat i \<in> set (registered_states fsm)"
    by (rule nth_mem)
  moreover from assms(4,5) have "registered_states fsm ! nat i = states fsm ! nat i"
    by (simp add: registered_states_def)
  ultimately show nul: "NUL \<in> set (name (states fsm ! nat i))"
    using assms(3) by (auto simp: names_terminated_def list_all_iff)
  from assms(2,5) have "i < MAX_STATES"
    by (simp add: counts_ok_def)
  with assms(1,4) have "length (name (states fsm ! nat i)) = MAX_NAME_LEN"
    by (intro layout_name_length)
  with c_str_shorter [OF nul] show "length (c_str (name (states fsm ! nat i))) < MAX_NAME_LEN"
    by simp
qed

lemma name_at_ok:
  assumes "fsm_layout fsm" "counts_ok fsm" "names_terminated fsm"
    and "0 \<le> i" "i < stateCount fsm"
  shows "name_at chk fsm i = Inr (c_str (name (states fsm ! nat i)))"
  using registered_name(1) [OF assms] state_at_ok [OF assms(2,4,5)]
  by (simp add: name_at_def)

lemma msg_lengths:
  "length (msg_start nm) = 19 + length nm"
  "length (msg_not_in_alphabet c) = 26"
  "length (msg_read c old new) = 14 + length old + length new"
  "length (msg_no_transition c nm) = 27 + length nm"
  "length msg_accepted = 19"
  "length msg_rejected = 19"
  by (simp_all add: msg_start_def msg_not_in_alphabet_def msg_read_def msg_no_transition_def
        msg_accepted_def msg_rejected_def)

lemma names_cursor [simp]:
  "names_terminated (fsm\<lparr>currentState := x\<rparr>) = names_terminated fsm"
  by (simp add: names_terminated_def registered_states_def)

lemma layout_cursor [simp]: "fsm_layout (fsm\<lparr>currentState := x\<rparr>) = fsm_layout fsm"
  by (simp add: fsm_layout_def)

lemma counts_cursor [simp]: "counts_ok (fsm\<lparr>currentState := x\<rparr>) = counts_ok fsm"
  by (simp add: counts_ok_def)

lemma valid_cursor [simp]: "valid_indices (fsm\<lparr>currentState := x\<rparr>) = valid_indices fsm"
  by (simp add: valid_indices_def)

lemma well_formed_cursor [simp]: "well_formed (fsm\<lparr>currentState := x\<rparr>) = well_formed fsm"
  by (simp add: well_formed_def)

lemma resetFSM_cursor [simp]: "resetFSM (fsm\<lparr>currentState := x\<rparr>) = resetFSM fsm"
  by (simp add: resetFSM_def)

lemma wf_name_at:
  assumes "well_formed fsm" "0 \<le> i" "i < stateCount fsm"
  shows "name_at chk fsm i = Inr (c_str (name (states fsm ! nat i)))"
    and "length (c_str (name (states fsm ! nat i))) < MAX_NAME_LEN"
  using assms name_at_ok [of fsm i] registered_name(2) [of fsm i]
  by (simp_all add: well_formed_def)

lemma add_trace_fixed:
  assumes "0 \<le> traceCount r" "traceCount r < MAX_TRACE"
  shows "add_trace r (msg_not_in_alphabet c) =
           Inr (r\<lparr>trace := trace r @ [msg_not_in_alphabet c],
                  traceCount := traceCount r + 1\<rparr>)"
    and "add_trace r msg_accepted =
           Inr (r\<lparr>trace := trace r @ [msg_accepted], traceCount := traceCount r + 1\<rparr>)"
    and "add_trace r msg_rejected =
           Inr (r\<lparr>trace := trace r @ [msg_rejected], traceCount := traceCount r + 1\<rparr>)"
  by (simp_all add: add_trace_ok [OF assms] msg_lengths MESSAGE_SIZE_def)

lemma add_trace_named:
  assumes "0 \<le> traceCount r" "traceCount r < MAX_TRACE" "length a < MAX_NAME_LEN"
  shows "add_trace r (msg_start a) =
           Inr (r\<lparr>trace := trace r @ [msg_start a], traceCount := traceCount r + 1\<rparr>)"
    and "add_trace r (msg_no_transition c a) =
           Inr (r\<lparr>trace := trace r @ [msg_no_transition c a],
                  traceCount := traceCount r + 1\<rparr>)"
  using assms(3)
  by (simp_all add: add_trace_ok [OF assms(1,2)] msg_lengths MAX_NAME_LEN_def MESSAGE_SIZE_def)

lemma add_trace_read:
  assumes "0 \<le> traceCount r" "traceCount r < MAX_TRACE"
    and "length a < MAX_NAME_LEN" "length b < MAX_NAME_LEN"
  shows "add_trace r (msg_read c a b) =
           Inr (r\<lparr>trace := trace r @ [msg_read c a b], traceCount := traceCount r + 1\<rparr>)"
  using assms(3,4)
  by (simp add: add_trace_ok [OF assms(1,2)] msg_lengths MAX_NAME_LEN_def MESSAGE_SIZE_def)

lemma found_toState_valid:
  assumes "fsm_layout fsm" "counts_ok fsm" "valid_indices fsm"
    and "findTransition fsm cur c \<ge> 0"
  shows "0 \<le> toState (transitions fsm ! nat (findTransition fsm cur c)) \<and>
         toState (transitions fsm ! nat (findTransition fsm cur c)) < stateCount fsm"
proof -
  let ?i = "findTransition fsm cur c"
  have "?i = -1 \<or> (0 \<le> ?i \<and> ?i < transitionCount fsm \<and> matches fsm cur c ?i)"
    unfolding findTransition_def by (rule findTransition_loop_range) simp
  with assms(4) have lt: "?i < transitionCount fsm" by auto
  from assms(1,2) have "nat (transitionCount fsm) \<le> length (transitions fsm)"
    unfolding fsm_layout_def counts_ok_def by linarith
  with lt assms(4) have "nat ?i < length (take (nat (transitionCount fsm)) (transitions fsm))"
    by simp
  then have "take (nat (transitionCount fsm)) (transitions fsm) ! nat ?i \<in>
      set (take (nat (transitionCount fsm)) (transitions fsm))"
    by (rule nth_mem)
  moreover from lt assms(4) have
    "take (nat (transitionCount fsm)) (transitions fsm) ! nat ?i = transitions fsm ! nat ?i"
    by simp
  ultimately show ?thesis
    using assms(3) by (auto simp: valid_indices_def list_all_iff)
qed

subsection \<open>The loop\<close>

lemma scan_append:
  "scan chk fsm r (u @ v) =
     (case scan chk fsm r u of
        Inl e \<Rightarrow> Inl e
      | Inr (Returned g r') \<Rightarrow> Inr (Returned g r')
      | Inr (Scanned g r') \<Rightarrow> scan chk g r' v)"
  by (induction u arbitrary: fsm r) (simp_all add: Let_def split: sum.splits)

lemma scan_frame:
  "scan chk fsm r w = Inr ex \<Longrightarrow> exit_fsm ex = fsm\<lparr>currentState := currentState (exit_fsm ex)\<rparr>"
proof (induction w arbitrary: fsm r)
  case Nil
  then show ?case by auto
next
  case (Cons c cs)
  show ?case
  proof (cases "charInAlphabet fsm c \<noteq> 0 \<and> findTransition fsm (currentState fsm) c \<ge> 0")
    case False
    with Cons.prems show ?thesis
      by (auto simp: Let_def split: sum.splits if_splits)
  next
    case True
    let ?g = "fsm\<lparr>currentState :=
               toState (transitions fsm ! nat (findTransition fsm (currentState fsm) c))\<rparr>"
    from True Cons.prems obtain r' where "scan chk ?g r' cs = Inr ex"
      by (auto simp: Let_def split: sum.splits)
    then have "exit_fsm ex = ?g\<lparr>currentState := currentState (exit_fsm ex)\<rparr>"
      by (rule Cons.IH)
    then show ?thesis by simp
  qed
qed

lemma scan_keeps_wf:
  assumes "scan chk fsm r w = Inr ex" "well_formed fsm"
  shows "well_formed (exit_fsm ex)"
proof -
  from assms(2) have "well_formed (fsm\<lparr>currentState := currentState (exit_fsm ex)\<rparr>)"
    by simp
  with scan_frame [OF assms(1)] show ?thesis by simp
qed

lemma scan_scanned_count:
  "scan chk fsm r w = Inr (Scanned g r') \<Longrightarrow>
   traceCount r' = traceCount r + int (length w) \<and>
   length (trace r') = length (trace r) + length w \<and>
   accepted r' = accepted r"
proof (induction w arbitrary: fsm r)
  case Nil
  then show ?case by simp
next
  case (Cons c cs)
  show ?case
  proof (cases "charInAlphabet fsm c \<noteq> 0 \<and> findTransition fsm (currentState fsm) c \<ge> 0")
    case False
    with Cons.prems show ?thesis
      by (auto simp: Let_def split: sum.splits if_splits)
  next
    case True
    let ?g = "fsm\<lparr>currentState :=
               toState (transitions fsm ! nat (findTransition fsm (currentState fsm) c))\<rparr>"
    from True Cons.prems obtain r1 m where
      r1: "add_trace r m = Inr r1" and rest: "scan chk ?g r1 cs = Inr (Scanned g r')"
      by (auto simp: Let_def split: sum.splits)
    from r1 have "r1 = r\<lparr>trace := trace r @ [m], traceCount := traceCount r + 1\<rparr>"
      by (rule add_trace_Inr)
    with Cons.IH [OF rest] show ?thesis by simp
  qed
qed

lemma scan_no_fault:
  assumes "well_formed fsm" "valid_indices fsm" "cursor_ok fsm"
    and "0 \<le> traceCount r" "traceCount r + int (length w) < MAX_TRACE"
  shows "\<exists>ex. scan chk fsm r w = Inr ex \<and> cursor_ok (exit_fsm ex) \<and>
           (\<exists>k\<le>length w. traceCount (exit_result ex) = traceCount r + int k \<and>
                length (trace (exit_result ex)) = length (trace r) + k)"
  using assms
proof (induction w arbitrary: fsm r)
  case Nil
  then show ?case by simp
next
  case (Cons c cs)
  from Cons.prems have room: "0 \<le> traceCount r" "traceCount r < MAX_TRACE"
    by simp_all
  from Cons.prems have cur: "0 \<le> currentState fsm" "currentState fsm < stateCount fsm"
    by (simp_all add: cursor_ok_def)
  note here = wf_name_at [OF Cons.prems(1) cur]
  show ?case
  proof (cases "charInAlphabet fsm c = 0")
    case True
    with Cons.prems(3) show ?thesis
      by (auto simp: add_trace_fixed(1) [OF room] intro: exI [of _ 1])
  next
    case known: False
    show ?thesis
    proof (cases "findTransition fsm (currentState fsm) c \<ge> 0")
      case False
      with known Cons.prems(3) show ?thesis
        by (auto simp: here(1) add_trace_named(2) [OF room here(2)] intro: exI [of _ 1])
    next
      case True
      let ?to = "toState (transitions fsm ! nat (findTransition fsm (currentState fsm) c))"
      let ?g = "fsm\<lparr>currentState := ?to\<rparr>"
      let ?m = "msg_read c (c_str (name (states fsm ! nat (currentState fsm))))
                  (c_str (name (states fsm ! nat ?to)))"
      let ?r = "r\<lparr>trace := trace r @ [?m], traceCount := traceCount r + 1\<rparr>"
      from Cons.prems(1) have lc: "fsm_layout fsm" "counts_ok fsm"
        by (simp_all add: well_formed_def)
      from found_toState_valid [OF lc Cons.prems(2) True]
      have to: "0 \<le> ?to" "?to < stateCount fsm" by simp_all
      from Cons.prems(1) have wg: "well_formed ?g" by simp
      have old: "name_at chk ?g (currentState fsm) =
          Inr (c_str (name (states fsm ! nat (currentState fsm))))"
        using wf_name_at(1) [OF wg, of "currentState fsm"] cur by simp
      have new: "name_at chk ?g ?to = Inr (c_str (name (states fsm ! nat ?to)))"
        using wf_name_at(1) [OF wg, of ?to] to by simp
      note there = wf_name_at(2) [OF Cons.prems(1) to]
      have step: "scan chk fsm r (c # cs) = scan chk ?g ?r cs"
        using known True old new
        by (simp add: Let_def add_trace_read [OF room here(2) there])
      have "\<exists>ex. scan chk ?g ?r cs = Inr ex \<and> cursor_ok (exit_fsm ex) \<and>
           (\<exists>k\<le>length cs. traceCount (exit_result ex) = traceCount ?r + int k \<and>
                length (trace (exit_result ex)) = length (trace ?r) + k)"
        using Cons.prems to by (intro Cons.IH) (simp_all add: cursor_ok_def)
      then obtain ex k where ex: "scan chk ?g ?r cs = Inr ex" "cursor_ok (exit_fsm ex)"
        and k: "k \<le> length cs" "traceCount (exit_result ex) = traceCount ?r + int k"
          "length (trace (exit_result ex)) = length (trace ?r) + k"
        by blast
      from k have "Suc k \<le> length (c # cs) \<and>
          traceCount (exit_result ex) = traceCount r + int (Suc k) \<and>
          length (trace (exit_result ex)) = length (trace r) + Suc k"
        by simp
      with ex step show ?thesis by metis
    qed
  qed
qed

lemma scan_returned_index:
  "scan chk fsm r w = Inr (Returned g r') \<Longrightarrow>
   \<exists>i<length w. \<exists>r0. scan chk fsm r (take i w) = Inr (Scanned g r0) \<and>
      (charInAlphabet g (w ! i) = 0 \<or> findTransition g (currentState g) (w ! i) < 0)"
proof (induction w arbitrary: fsm r)
  case Nil
  then show ?case by simp
next
  case (Cons c cs)
  show ?case
  proof (cases "charInAlphabet fsm c \<noteq> 0 \<and> findTransition fsm (currentState fsm) c \<ge> 0")
    case False
    with Cons.prems have "g = fsm"
      by (auto simp: Let_def split: sum.splits if_splits)
    with False have "scan chk fsm r (take 0 (c # cs)) = Inr (Scanned g r) \<and>
       (charInAlphabet g ((c # cs) ! 0) = 0 \<or>
        findTransition g (currentState g) ((c # cs) ! 0) < 0)"
      by auto
    then show ?thesis by (intro exI [of _ 0]) auto
  next
    case True
    let ?g = "fsm\<lparr>currentState :=
               toState (transitions fsm ! nat (findTransition fsm (currentState fsm) c))\<rparr>"
    from True Cons.prems obtain r1 where
      step: "\<And>v. scan chk fsm r (c # v) = scan chk ?g r1 v"
      and rest: "scan chk ?g r1 cs = Inr (Returned g r')"
      by (auto simp: Let_def split: sum.splits)
    from Cons.IH [OF rest] obtain i r0 where i: "i < length cs"
      and pre: "scan chk ?g r1 (take i cs) = Inr (Scanned g r0)"
      and bad: "charInAlphabet g (cs ! i) = 0 \<or> findTransition g (currentState g) (cs ! i) < 0"
      by blast
    from pre step have "scan chk fsm r (take (Suc i) (c # cs)) = Inr (Scanned g r0)"
      by simp
    with i bad show ?thesis
      by (intro exI [of _ "Suc i"]) auto
  qed
qed

lemma scan_reject_here:
  assumes "well_formed fsm" "cursor_ok fsm" "0 \<le> traceCount r" "traceCount r < MAX_TRACE"
    and "charInAlphabet fsm c = 0 \<or> findTransition fsm (currentState fsm) c < 0"
  shows "scan chk fsm r (c # v) =
           Inr (Returned fsm
             (r\<lparr>trace := trace r @
                   [if charInAlphabet fsm c = 0 then msg_not_in_alphabet c
                    else msg_no_transition c
                           (c_str (name (states fsm ! nat (currentState fsm))))],
                traceCount := traceCount r + 1\<rparr>))"
proof -
  from assms(2) have cur: "0 \<le> currentState fsm" "currentState fsm < stateCount fsm"
    by (simp_all add: cursor_ok_def)
  note here = wf_name_at [OF assms(1) cur]
  show ?thesis
  proof (cases "charInAlphabet fsm c = 0")
    case True
    then show ?thesis
      by (simp add: add_trace_fixed(1) [OF assms(3,4)])
  next
    case False
    with assms(5) have "\<not> findTransition fsm (currentState fsm) c \<ge> 0" by simp
    with False show ?thesis
      by (simp add: here(1) add_trace_named(2) [OF assms(3,4) here(2)])
  qed
qed

subsection \<open>The whole call\<close>

lemma processString_scan:
  assumes "well_formed fsm" "valid_indices fsm"
  shows "processString_with chk fsm w =
           (case scan chk (resetFSM fsm) (start_result fsm) w of
              Inl e \<Rightarrow> Inl e
            | Inr (Returned g r) \<Rightarrow> Inr (g, r)
            | Inr (Scanned g r) \<Rightarrow> verdict chk g r)"
proof -
  from assms(1) have wr: "well_formed (resetFSM fsm)"
    by (simp add: resetFSM_def)
  from assms(2) have init: "0 \<le> initialState fsm" "initialState fsm < stateCount fsm"
    by (simp_all add: valid_indices_def)
  have "name_at chk (resetFSM fsm) (currentState (resetFSM fsm)) =
      Inr (c_str (name (states fsm ! nat (initialState fsm))))"
    using wf_name_at(1) [OF wr, of "initialState fsm"] init
    by (simp add: resetFSM_def)
  moreover have "add_trace \<lparr>accepted = 0, trace = [], traceCount = 0\<rparr>
       (msg_start (c_str (name (states fsm ! nat (initialState fsm))))) =
     Inr (start_result fsm)"
    using add_trace_named(1) [of "\<lparr>accepted = 0, trace = [], traceCount = 0\<rparr>"
        "c_str (name (states fsm ! nat (initialState fsm)))"]
      wf_name_at(2) [OF assms(1) init]
    by (simp add: start_result_def MAX_TRACE_def)
  ultimately show ?thesis
    by (simp add: processString_with_def Let_def)
qed

lemma verdict_ok:
  assumes "well_formed fsm" "cursor_ok fsm" "0 \<le> traceCount r" "traceCount r < MAX_TRACE"
  shows "verdict chk fsm r =
           Inr (fsm, r\<lparr>accepted := isAccepting (states fsm ! nat (currentState fsm)),
                        trace := trace r @
                          [if isAccepting (states fsm ! nat (currentState fsm)) \<noteq> 0
                           then msg_accepted else msg_rejected],
                        traceCount := traceCount r + 1\<rparr>)"
proof -
  from assms(2) have cur: "0 \<le> currentState fsm" "currentState fsm < stateCount fsm"
    by (simp_all add: cursor_ok_def)
  from assms(1) have c: "counts_ok fsm"
    by (simp add: well_formed_def)
  have "add_trace (r\<lparr>accepted := x\<rparr>) m =
      Inr (r\<lparr>accepted := x, trace := trace r @ [m], traceCount := traceCount r + 1\<rparr>)"
    if "m = msg_accepted \<or> m = msg_rejected" for x m
    using that assms(3,4) add_trace_fixed(2,3) [of "r\<lparr>accepted := x\<rparr>"]
    by auto
  then show ?thesis
    by (simp add: verdict_def Let_def state_at_ok [OF c cur])
qed

lemma verdict_fsm: "verdict chk fsm r = Inr (fsm', r') \<Longrightarrow> fsm' = fsm"
  by (auto simp: verdict_def Let_def split: sum.splits)

lemma processString_cursor_only:
  assumes "processString_with chk fsm w = Inr (fsm', r)"
  shows "fsm' = fsm\<lparr>currentState := currentState fsm'\<rparr>"
proof -
  from assms obtain r1 ex where sc: "scan chk (resetFSM fsm) r1 w = Inr ex"
    and fin: "(case ex of Returned g r2 \<Rightarrow> Inr (g, r2) | Scanned g r2 \<Rightarrow> verdict chk g r2) =
              Inr (fsm', r)"
    by (auto simp: processString_with_def Let_def split: sum.splits)
  from fin have "fsm' = exit_fsm ex"
    by (cases ex) (auto dest: verdict_fsm)
  with scan_frame [OF sc] show ?thesis
    by (simp add: resetFSM_def)
qed


lemma start_scan_no_fault:
  assumes "well_formed fsm" "valid_indices fsm"
    and "1 + int (length w) < MAX_TRACE"
  shows "\<exists>ex. scan chk (resetFSM fsm) (start_result fsm) w = Inr ex \<and> cursor_ok (exit_fsm ex) \<and>
           (\<exists>k\<le>length w. traceCount (exit_result ex) = 1 + int k \<and>
                length (trace (exit_result ex)) = 1 + k)"
proof -
  have "\<exists>ex. scan chk (resetFSM fsm) (start_result fsm) w = Inr ex \<and> cursor_ok (exit_fsm ex) \<and>
           (\<exists>k\<le>length w. traceCount (exit_result ex) = traceCount (start_result fsm) + int k \<and>
                length (trace (exit_result ex)) = length (trace (start_result fsm)) + k)"
    using assms
    by (intro scan_no_fault)
       (simp_all add: resetFSM_def cursor_ok_def valid_indices_def start_result_def)
  then show ?thesis by (simp add: start_result_def)
qed

lemma processString_no_fault:
  assumes "well_formed fsm" "valid_indices fsm"
    and "int (length w) + 2 \<le> MAX_TRACE"
  shows "\<exists>fsm' r. processString_with chk fsm w = Inr (fsm', r) \<and> cursor_ok fsm' \<and>
           0 < traceCount r \<and> traceCount r \<le> int (length w) + 2 \<and>
           length (trace r) = nat (traceCount r)"
proof -
  from assms(3) have "1 + int (length w) < MAX_TRACE" by simp
  from start_scan_no_fault [OF assms(1,2) this]
  obtain ex k where ex: "scan chk (resetFSM fsm) (start_result fsm) w = Inr ex"
    and cur: "cursor_ok (exit_fsm ex)"
    and k: "k \<le> length w" "traceCount (exit_result ex) = 1 + int k"
      "length (trace (exit_result ex)) = 1 + k"
    by blast
  from assms(1) have "well_formed (resetFSM fsm)"
    by (simp add: resetFSM_def)
  with ex have c: "well_formed (exit_fsm ex)"
    by (rule scan_keeps_wf)
  show ?thesis
  proof (cases ex)
    case (Returned g r)
    with ex cur k show ?thesis
      by (simp add: processString_scan [OF assms(1,2)])
  next
    case (Scanned g r)
    with k assms(3) have room: "0 \<le> traceCount r" "traceCount r < MAX_TRACE"
      by simp_all
    from Scanned c cur have "well_formed g" "cursor_ok g" by simp_all
    from verdict_ok [OF this room] Scanned ex cur k show ?thesis
      by (simp add: processString_scan [OF assms(1,2)])
  qed
qed

subsection \<open>The run that watches its reads\<close>

text \<open>
  A run that watches its reads and returns is the run of the program: the check only
  ever stops a run. For a well-formed automaton with valid indices and an input that
  fits the trace the two runs are the same.
\<close>

lemma state_at_watched:
  "state_at True fsm i = Inr s \<Longrightarrow> state_at chk fsm i = Inr s"
  by (simp add: state_at_def split: if_splits)

lemma name_at_watched:
  assumes "name_at True fsm i = Inr nm"
  shows "name_at chk fsm i = Inr nm"
proof -
  from assms obtain s where s: "state_at True fsm i = Inr s"
    and nm: "NUL \<in> set (name s)" "nm = c_str (name s)"
    by (auto simp: name_at_def split: sum.splits if_splits)
  from state_at_watched [OF s, where chk = chk] nm show ?thesis
    by (simp add: name_at_def)
qed

lemma scan_watched:
  "scan True fsm r w = Inr ex \<Longrightarrow> scan chk fsm r w = Inr ex"
proof (induction w arbitrary: fsm r)
  case Nil
  then show ?case by simp
next
  case (Cons c cs)
  let ?t = "findTransition fsm (currentState fsm) c"
  let ?g = "fsm\<lparr>currentState := toState (transitions fsm ! nat ?t)\<rparr>"
  consider (unknown) "charInAlphabet fsm c = 0"
    | (stuck) "charInAlphabet fsm c \<noteq> 0" "\<not> ?t \<ge> 0"
    | (step) "charInAlphabet fsm c \<noteq> 0" "?t \<ge> 0"
    by blast
  then show ?case
  proof cases
    case unknown
    with Cons.prems show ?thesis by simp
  next
    case stuck
    with Cons.prems obtain nm where nm: "name_at True fsm (currentState fsm) = Inr nm"
      by (auto simp: Let_def split: sum.splits)
    from stuck Cons.prems nm name_at_watched [OF nm, where chk = chk] show ?thesis
      by (simp add: Let_def)
  next
    case step
    with Cons.prems obtain old new r' where
      old: "name_at True ?g (currentState fsm) = Inr old"
      and new: "name_at True ?g (toState (transitions fsm ! nat ?t)) = Inr new"
      and r': "add_trace r (msg_read c old new) = Inr r'"
      and rest: "scan True ?g r' cs = Inr ex"
      by (auto simp: Let_def split: sum.splits)
    from rest have "scan chk ?g r' cs = Inr ex"
      by (rule Cons.IH)
    with step r' name_at_watched [OF old, where chk = chk]
      name_at_watched [OF new, where chk = chk]
    show ?thesis by (simp add: Let_def)
  qed
qed

lemma verdict_watched:
  assumes "verdict True fsm r = Inr x"
  shows "verdict chk fsm r = Inr x"
proof -
  from assms obtain s where s: "state_at True fsm (currentState fsm) = Inr s"
    by (auto simp: verdict_def split: sum.splits)
  from assms s state_at_watched [OF s, where chk = chk] show ?thesis
    by (simp add: verdict_def)
qed

lemma processString_watched:
  assumes "processString_with True fsm w = Inr x"
  shows "processString_with chk fsm w = Inr x"
proof -
  let ?f = "resetFSM fsm"
  from assms obtain nm r1 ex where nm: "name_at True ?f (currentState ?f) = Inr nm"
    and r1: "add_trace \<lparr>accepted = 0, trace = [], traceCount = 0\<rparr> (msg_start nm) = Inr r1"
    and sc: "scan True ?f r1 w = Inr ex"
    and fin: "(case ex of Returned g r2 \<Rightarrow> Inr (g, r2) | Scanned g r2 \<Rightarrow> verdict True g r2) =
              Inr x"
    by (auto simp: processString_with_def Let_def split: sum.splits)
  from fin have "(case ex of Returned g r2 \<Rightarrow> Inr (g, r2) | Scanned g r2 \<Rightarrow> verdict chk g r2) =
      Inr x"
    by (cases ex) (auto intro: verdict_watched)
  with name_at_watched [OF nm, where chk = chk] r1 scan_watched [OF sc, where chk = chk]
  show ?thesis
    by (simp add: processString_with_def Let_def)
qed

lemma checked_run:
  "processString_checked fsm w = Inr x \<Longrightarrow> processString fsm w = Inr x"
  unfolding processString_checked_def processString_def by (rule processString_watched)

lemma checked_run_same:
  assumes "well_formed fsm" "valid_indices fsm"
    and "int (length w) + 2 \<le> MAX_TRACE"
  shows "processString_checked fsm w = processString fsm w"
proof -
  from processString_no_fault [OF assms, where chk = True]
  obtain fsm' r where "processString_checked fsm w = Inr (fsm', r)"
    unfolding processString_checked_def by blast
  with checked_run [of fsm w "(fsm', r)"] show ?thesis by simp
qed

subsection \<open>The engine does not read the state count\<close>

text \<open>
  \<^verbatim>\<open>processString\<close> never reads \<^verbatim>\<open>stateCount\<close>: with another value there it does the
  same. With \<^verbatim>\<open>MAX_STATES\<close> there every slot counts as registered, so the call returns
  as soon as every slot holds a terminated name and the indices lie inside the array.
\<close>

lemma charInAlphabet_count:
  "charInAlphabet (fsm\<lparr>stateCount := n\<rparr>) c = charInAlphabet fsm c"
  by (simp add: charInAlphabet_iff)

lemma findTransition_loop_count:
  "findTransition_loop (fsm\<lparr>stateCount := n\<rparr>) cur c i = findTransition_loop fsm cur c i"
proof (induction fsm cur c i rule: findTransition_loop.induct)
  case (1 fsm cur c i)
  show ?case
  proof (cases "i < transitionCount fsm \<and>
      \<not> (fromState (transitions fsm ! nat i) = cur \<and> symbol (transitions fsm ! nat i) = c)")
    case True
    with 1 have "findTransition_loop (fsm\<lparr>stateCount := n\<rparr>) cur c (i + 1) =
        findTransition_loop fsm cur c (i + 1)"
      by simp
    with True show ?thesis
      by (auto simp add: findTransition_loop.simps [of fsm cur c i]
            findTransition_loop.simps [of "fsm\<lparr>stateCount := n\<rparr>" cur c i])
  next
    case False
    then show ?thesis
      by (auto simp add: findTransition_loop.simps [of fsm cur c i]
            findTransition_loop.simps [of "fsm\<lparr>stateCount := n\<rparr>" cur c i])
  qed
qed

lemma findTransition_count:
  "findTransition (fsm\<lparr>stateCount := n\<rparr>) cur c = findTransition fsm cur c"
  by (simp add: findTransition_def findTransition_loop_count)

lemma name_at_count:
  "name_at False (fsm\<lparr>stateCount := n\<rparr>) i = name_at False fsm i"
  by (simp add: name_at_def state_at_def)

lemma scan_count:
  "scan False (fsm\<lparr>stateCount := n\<rparr>) r w =
     (case scan False fsm r w of
        Inl e \<Rightarrow> Inl e
      | Inr (Returned g r') \<Rightarrow> Inr (Returned (g\<lparr>stateCount := n\<rparr>) r')
      | Inr (Scanned g r') \<Rightarrow> Inr (Scanned (g\<lparr>stateCount := n\<rparr>) r'))"
proof (induction w arbitrary: fsm r)
  case Nil
  show ?case by simp
next
  case (Cons c cs)
  have swap: "fsm\<lparr>stateCount := n\<rparr>\<lparr>currentState := y\<rparr> = fsm\<lparr>currentState := y\<rparr>\<lparr>stateCount := n\<rparr>" for y
    by simp
  have at: "name_at False (fsm\<lparr>stateCount := n\<rparr>\<lparr>currentState := y\<rparr>) i =
      name_at False (fsm\<lparr>currentState := y\<rparr>) i" for y i
    by (simp only: swap name_at_count)
  have rest: "scan False (fsm\<lparr>stateCount := n\<rparr>\<lparr>currentState := y\<rparr>) r' cs =
     (case scan False (fsm\<lparr>currentState := y\<rparr>) r' cs of
        Inl e \<Rightarrow> Inl e
      | Inr (Returned g r') \<Rightarrow> Inr (Returned (g\<lparr>stateCount := n\<rparr>) r')
      | Inr (Scanned g r') \<Rightarrow> Inr (Scanned (g\<lparr>stateCount := n\<rparr>) r'))" for y r'
    by (simp only: swap Cons.IH)
  show ?case
    by (simp add: Let_def charInAlphabet_count findTransition_count name_at_count at rest
          split: sum.splits)
qed

lemma verdict_count:
  "verdict False (fsm\<lparr>stateCount := n\<rparr>) r =
     (case verdict False fsm r of
        Inl e \<Rightarrow> Inl e
      | Inr (g, r') \<Rightarrow> Inr (g\<lparr>stateCount := n\<rparr>, r'))"
  by (simp add: verdict_def state_at_def Let_def split: sum.splits)

lemma processString_count:
  "processString (fsm\<lparr>stateCount := n\<rparr>) w =
     (case processString fsm w of
        Inl e \<Rightarrow> Inl e
      | Inr (g, r) \<Rightarrow> Inr (g\<lparr>stateCount := n\<rparr>, r))"
proof -
  have reset: "resetFSM (fsm\<lparr>stateCount := n\<rparr>) = (resetFSM fsm)\<lparr>stateCount := n\<rparr>"
    by (simp add: resetFSM_def)
  show ?thesis
    unfolding processString_def processString_with_def reset
    by (simp add: Let_def name_at_count scan_count verdict_count
          split: sum.splits scan_exit.splits)
qed

lemma all_slots:
  assumes "fsm_layout fsm" "counts_ok fsm" "slots_terminated fsm" "indices_in_array fsm"
  shows "well_formed (fsm\<lparr>stateCount := MAX_STATES\<rparr>)"
    and "valid_indices (fsm\<lparr>stateCount := MAX_STATES\<rparr>)"
proof -
  from assms(1) have "length (states fsm) = 100"
    by (simp add: fsm_layout_def MAX_STATES_def)
  then have "registered_states (fsm\<lparr>stateCount := MAX_STATES\<rparr>) = states fsm"
    by (simp add: registered_states_def MAX_STATES_def)
  with assms(1-3) show "well_formed (fsm\<lparr>stateCount := MAX_STATES\<rparr>)"
    by (simp add: well_formed_def fsm_layout_def counts_ok_def names_terminated_def
          slots_terminated_def MAX_STATES_def)
  from assms(4) show "valid_indices (fsm\<lparr>stateCount := MAX_STATES\<rparr>)"
    by (simp add: valid_indices_def indices_in_array_def)
qed

lemma processString_returns:
  assumes "fsm_layout fsm" "counts_ok fsm" "slots_terminated fsm" "indices_in_array fsm"
    and "int (length w) + 2 \<le> MAX_TRACE"
  shows "\<exists>fsm' r. processString fsm w = Inr (fsm', r)"
proof -
  from processString_no_fault [OF all_slots [OF assms(1-4)] assms(5), where chk = False]
  obtain g r where "processString (fsm\<lparr>stateCount := MAX_STATES\<rparr>) w = Inr (g, r)"
    unfolding processString_def by blast
  then show ?thesis
    by (auto simp: processString_count split: sum.splits)
qed

lemma rejects_at_scan:
  assumes "well_formed fsm" "valid_indices fsm"
    and "int (length w) + 2 \<le> MAX_TRACE" and "rejects_at fsm w i"
  shows "\<exists>g r. traceCount r = int i + 2 \<and> length (trace r) = i + 2 \<and> accepted r = 0 \<and>
           (\<forall>v. scan False (resetFSM fsm) (start_result fsm) (take (Suc i) w @ v) =
                  Inr (Returned g r))"
proof -
  from assms(4) have i: "i < length w"
    by (simp add: rejects_at_def)
  from assms(4) obtain g r0 where
    pre: "scan False (resetFSM fsm) (start_result fsm) (take i w) = Inr (Scanned g r0)"
    and bad: "charInAlphabet g (w ! i) = 0 \<or> findTransition g (currentState g) (w ! i) < 0"
    by (auto simp: rejects_at_def split: sum.splits scan_exit.splits)
  from i assms(3) have "1 + int (length (take i w)) < MAX_TRACE" by simp
  from start_scan_no_fault [OF assms(1,2) this, where chk = False] pre have cur: "cursor_ok g"
    by auto
  from assms(1) have "well_formed (resetFSM fsm)"
    by (simp add: resetFSM_def)
  with pre have "well_formed (exit_fsm (Scanned g r0))"
    by (rule scan_keeps_wf)
  then have c: "well_formed g" by simp
  from scan_scanned_count [OF pre] i have r0: "traceCount r0 = 1 + int i"
    "length (trace r0) = 1 + i" "accepted r0 = 0"
    by (simp_all add: start_result_def min_def)
  with i assms(3) have room: "0 \<le> traceCount r0" "traceCount r0 < MAX_TRACE"
    by simp_all
  let ?m = "if charInAlphabet g (w ! i) = 0 then msg_not_in_alphabet (w ! i)
            else msg_no_transition (w ! i) (c_str (name (states g ! nat (currentState g))))"
  let ?r = "r0\<lparr>trace := trace r0 @ [?m], traceCount := traceCount r0 + 1\<rparr>"
  have "scan False (resetFSM fsm) (start_result fsm) (take (Suc i) w @ v) = Inr (Returned g ?r)" for v
  proof -
    from i have "take (Suc i) w @ v = take i w @ (w ! i # v)"
      by (simp add: take_Suc_conv_app_nth)
    then have "scan False (resetFSM fsm) (start_result fsm) (take (Suc i) w @ v) =
        scan False g r0 (w ! i # v)"
      by (simp only: scan_append pre sum.case scan_exit.case)
    also have "\<dots> = Inr (Returned g ?r)"
      using c cur room bad by (rule scan_reject_here)
    finally show ?thesis .
  qed
  moreover from r0 have "traceCount ?r = int i + 2 \<and> length (trace ?r) = i + 2 \<and> accepted ?r = 0"
    by simp
  ultimately show ?thesis by blast
qed

section \<open>The sample automaton\<close>

lemma createSampleFSM_shape:
  assumes "fsm_layout f0"
  shows "sample_shape (createSampleFSM f0) \<and> currentState (createSampleFSM f0) = 0"
proof -
  define g0 where "g0 = initializeFSM f0"
  define g1 where "g1 = fst (addState g0 ''q0'' 0)"
  define g2 where "g2 = fst (addState g1 ''q1'' 0)"
  define g3 where "g3 = fst (addState g2 ''q2'' 1)"
  define g4 where "g4 = addTransition g3 0 1 (CHR ''a'')"
  define g5 where "g5 = addTransition g4 1 2 (CHR ''b'')"
  define g6 where "g6 = addTransition g5 2 0 (CHR ''c'')"
  have s0: "well_formed g0" "stateCount g0 = 0" "transitionCount g0 = 0"
    "state_info g0 = []" "registered_transitions g0 = []" "alphabet_syms g0 = []"
    using assms
    by (simp_all add: g0_def well_formed_def initialize_layout initialize_counts)
       (simp_all add: initializeFSM_def names_terminated_def state_info_def
          registered_states_def registered_transitions_def alphabet_syms_def)
  have nm: "NUL \<notin> set ''q0''" "NUL \<notin> set ''q1''" "NUL \<notin> set ''q2''"
    "length ''q0'' < MAX_NAME_LEN" "length ''q1'' < MAX_NAME_LEN" "length ''q2'' < MAX_NAME_LEN"
    by (simp_all add: NUL_def MAX_NAME_LEN_def)
  have r0: "stateCount g0 < MAX_STATES"
    by (simp add: s0 MAX_STATES_def)
  note e1 = addState_effect [OF s0(1) r0 nm(1,4), of 0, folded g1_def]
  have r1: "stateCount g1 < MAX_STATES"
    by (simp add: e1 s0 MAX_STATES_def)
  note e2 = addState_effect [OF e1(2) r1 nm(2,5), of 0, folded g2_def]
  have r2: "stateCount g2 < MAX_STATES"
    by (simp add: e2 e1 s0 MAX_STATES_def)
  note e3 = addState_effect [OF e2(2) r2 nm(3,6), of 1, folded g3_def]
  have r3: "transitionCount g3 < MAX_TRANSITIONS"
    by (simp add: e3 e2 e1 s0 MAX_TRANSITIONS_def)
  note e4 = addTransition_effect [OF e3(2) r3, of 0 1 "CHR ''a''", folded g4_def]
  have r4: "transitionCount g4 < MAX_TRANSITIONS"
    by (simp add: e4 e3 e2 e1 s0 MAX_TRANSITIONS_def)
  note e5 = addTransition_effect [OF e4(1) r4, of 1 2 "CHR ''b''", folded g5_def]
  have r5: "transitionCount g5 < MAX_TRANSITIONS"
    by (simp add: e5 e4 e3 e2 e1 s0 MAX_TRANSITIONS_def)
  note e6 = addTransition_effect [OF e5(1) r5, of 2 0 "CHR ''c''", folded g6_def]
  have q: "snd (addState g0 ''q0'' 0) = 0" "snd (addState g1 ''q1'' 0) = 1"
    "snd (addState g2 ''q2'' 1) = 2"
    by (simp_all add: e1 e2 e3 s0)
  have "createSampleFSM f0 = g6\<lparr>initialState := 0, currentState := 0\<rparr>"
    by (simp add: createSampleFSM_def Let_def split_beta q
          g0_def [symmetric] g1_def [symmetric] g2_def [symmetric] g3_def [symmetric]
          g4_def [symmetric] g5_def [symmetric] g6_def [symmetric])
  moreover have "sample_shape (g6\<lparr>initialState := 0, currentState := 0\<rparr>)"
    by (simp add: sample_shape_def e6 e5 e4 e3 e2 e1 s0 register_sym_def MAX_ALPHABET_def)
  ultimately show ?thesis by simp
qed

lemmas msg_defs = msg_start_def msg_not_in_alphabet_def msg_read_def msg_no_transition_def
  msg_accepted_def msg_rejected_def

lemma sample_shape_facts:
  assumes "sample_shape g"
  shows "well_formed g" and "valid_indices g"
    and "stateCount g = 3" and "transitionCount g = 3" and "initialState g = 0"
    and "alphabet_syms g = ''abc''"
    and "transitions g ! 0 = \<lparr>fromState = 0, toState = 1, symbol = CHR ''a''\<rparr>"
    and "transitions g ! Suc 0 = \<lparr>fromState = 1, toState = 2, symbol = CHR ''b''\<rparr>"
    and "transitions g ! 2 = \<lparr>fromState = 2, toState = 0, symbol = CHR ''c''\<rparr>"
    and "c_str (name (states g ! 0)) = ''q0''" and "isAccepting (states g ! 0) = 0"
    and "c_str (name (states g ! Suc 0)) = ''q1''" and "isAccepting (states g ! Suc 0) = 0"
    and "c_str (name (states g ! 2)) = ''q2''" and "isAccepting (states g ! 2) = 1"
proof -
  from assms show basic: "well_formed g" "stateCount g = 3"
    "transitionCount g = 3" "initialState g = 0" "alphabet_syms g = ''abc''"
    by (simp_all add: sample_shape_def)
  from assms have rt: "registered_transitions g =
       [\<lparr>fromState = 0, toState = 1, symbol = CHR ''a''\<rparr>,
        \<lparr>fromState = 1, toState = 2, symbol = CHR ''b''\<rparr>,
        \<lparr>fromState = 2, toState = 0, symbol = CHR ''c''\<rparr>]"
    by (simp add: sample_shape_def)
  from registered_transition_nth [of 0 g] registered_transition_nth [of 1 g]
    registered_transition_nth [of 2 g]
  show "transitions g ! 0 = \<lparr>fromState = 0, toState = 1, symbol = CHR ''a''\<rparr>"
    "transitions g ! Suc 0 = \<lparr>fromState = 1, toState = 2, symbol = CHR ''b''\<rparr>"
    "transitions g ! 2 = \<lparr>fromState = 2, toState = 0, symbol = CHR ''c''\<rparr>"
    by (simp_all add: basic rt)
  have "valid_indices g \<longleftrightarrow>
      0 \<le> initialState g \<and> initialState g < stateCount g \<and>
      list_all (\<lambda>t. 0 \<le> toState t \<and> toState t < stateCount g) (registered_transitions g)"
    by (simp add: valid_indices_def registered_transitions_def)
  with rt basic show "valid_indices g"
    by simp
  from assms have si: "state_info g = [(''q0'', 0), (''q1'', 0), (''q2'', 1)]"
    by (simp add: sample_shape_def)
  then have "length (state_info g) = 3"
    by simp
  then have len: "length (registered_states g) = 3"
    by (simp add: state_info_def)
  have "(c_str (name (states g ! nat i)), isAccepting (states g ! nat i)) =
        state_info g ! nat i" if "0 \<le> i" "i < 3" for i
    using that len by (simp add: registered_state_nth basic state_info_def)
  from this [of 0] this [of 1] this [of 2]
  show "c_str (name (states g ! 0)) = ''q0''" "isAccepting (states g ! 0) = 0"
    "c_str (name (states g ! Suc 0)) = ''q1''" "isAccepting (states g ! Suc 0) = 0"
    "c_str (name (states g ! 2)) = ''q2''" "isAccepting (states g ! 2) = 1"
    by (simp_all add: si)
qed

lemma sample_charInAlphabet:
  assumes "sample_shape g"
  shows "charInAlphabet (g\<lparr>currentState := x\<rparr>) c = (if c \<in> set ''abc'' then 1 else 0)"
proof -
  from sample_shape_facts(1) [OF assms]
  have "fsm_layout (g\<lparr>currentState := x\<rparr>)" "counts_ok (g\<lparr>currentState := x\<rparr>)"
    by (simp_all add: well_formed_def)
  then show ?thesis
    by (simp add: charInAlphabet_wf sample_shape_facts(6) [OF assms])
qed

lemma sample_findTransition:
  assumes "sample_shape g"
  shows "findTransition (g\<lparr>currentState := x\<rparr>) cur c =
           (if cur = 0 \<and> c = CHR ''a'' then 0
            else if cur = 1 \<and> c = CHR ''b'' then 1
            else if cur = 2 \<and> c = CHR ''c'' then 2 else -1)"
  by (simp add: findTransition_def findTransition_loop.simps sample_shape_facts [OF assms])

lemma sample_state_at:
  assumes "sample_shape g"
  shows "state_at chk (g\<lparr>currentState := x\<rparr>) 0 = Inr (states g ! 0)"
    and "state_at chk (g\<lparr>currentState := x\<rparr>) 1 = Inr (states g ! Suc 0)"
    and "state_at chk (g\<lparr>currentState := x\<rparr>) 2 = Inr (states g ! 2)"
  by (simp_all add: state_at_def sample_shape_facts [OF assms] MAX_STATES_def)

lemma sample_name_at:
  assumes "sample_shape g"
  shows "name_at chk (g\<lparr>currentState := x\<rparr>) 0 = Inr ''q0''"
    and "name_at chk (g\<lparr>currentState := x\<rparr>) 1 = Inr ''q1''"
    and "name_at chk (g\<lparr>currentState := x\<rparr>) 2 = Inr ''q2''"
proof -
  from sample_shape_facts(1) [OF assms] have wf: "well_formed (g\<lparr>currentState := x\<rparr>)"
    by simp
  from wf_name_at(1) [OF wf, of 0] wf_name_at(1) [OF wf, of 1] wf_name_at(1) [OF wf, of 2]
  show "name_at chk (g\<lparr>currentState := x\<rparr>) 0 = Inr ''q0''"
    "name_at chk (g\<lparr>currentState := x\<rparr>) 1 = Inr ''q1''"
    "name_at chk (g\<lparr>currentState := x\<rparr>) 2 = Inr ''q2''"
    by (simp_all add: sample_shape_facts [OF assms])
qed

lemmas sample_eval = sample_charInAlphabet sample_findTransition sample_state_at
  sample_name_at sample_shape_facts(3-15)

lemmas engine_defs = add_trace_def verdict_def Let_def MAX_TRACE_def MESSAGE_SIZE_def msg_defs
  start_result_def resetFSM_def

lemma shape_abc:
  assumes "sample_shape g"
  shows "processString_with chk g ''abc'' =
     Inr (g\<lparr>currentState := 0\<rparr>,
          \<lparr>accepted = 0,
           trace = [''Starting at state: q0'', ''Read 'a': q0 -> q1'', ''Read 'b': q1 -> q2'',
                    ''Read 'c': q2 -> q0'', msg_rejected],
           traceCount = 5\<rparr>)"
  by (simp add: processString_with_def sample_eval [OF assms] engine_defs)

lemma shape_ab:
  assumes "sample_shape g"
  shows "processString_with chk g ''ab'' =
     Inr (g\<lparr>currentState := 2\<rparr>,
          \<lparr>accepted = 1,
           trace = [''Starting at state: q0'', ''Read 'a': q0 -> q1'', ''Read 'b': q1 -> q2'',
                    msg_accepted],
           traceCount = 4\<rparr>)"
  by (simp add: processString_with_def sample_eval [OF assms] engine_defs)

lemma shape_ac:
  assumes "sample_shape g"
  shows "processString_with chk g ''ac'' =
     Inr (g\<lparr>currentState := 1\<rparr>,
          \<lparr>accepted = 0,
           trace = [''Starting at state: q0'', ''Read 'a': q0 -> q1'',
                    ''No transition for 'c' from q1''],
           traceCount = 3\<rparr>)"
  by (simp add: processString_with_def sample_eval [OF assms] engine_defs)

lemma shape_xyz:
  assumes "sample_shape g"
  shows "processString_with chk g ''xyz'' =
     Inr (g\<lparr>currentState := 0\<rparr>,
          \<lparr>accepted = 0,
           trace = [''Starting at state: q0'', ''Error: 'x' not in alphabet''],
           traceCount = 2\<rparr>)"
  by (simp add: processString_with_def sample_eval [OF assms] engine_defs)

lemma sample_scans_all_abc: "sample_shape g \<Longrightarrow> scans_all g ''abc''"
  by (simp add: scans_all_def sample_eval engine_defs)

lemma sample_rejects_ac: "sample_shape g \<Longrightarrow> rejects_at g ''ac'' 1"
  by (simp add: rejects_at_def sample_eval engine_defs)

lemma sample_rejects_xyz: "sample_shape g \<Longrightarrow> rejects_at g ''xyz'' 0"
  by (simp add: rejects_at_def sample_eval engine_defs)

lemma sampleFSM_shape: "sample_shape sampleFSM" "currentState sampleFSM = 0"
  using createSampleFSM_shape [OF blank_layout] by (simp_all add: sampleFSM_def)

lemma sampleFSM_wf: "well_formed sampleFSM" "valid_indices sampleFSM"
  using sampleFSM_shape(1) by (simp_all add: sample_shape_facts)

lemma created_abc:
  assumes "fsm_layout f0"
  shows "processString_with chk (createSampleFSM f0) ''abc'' =
     Inr (createSampleFSM f0,
          \<lparr>accepted = 0,
           trace = [''Starting at state: q0'', ''Read 'a': q0 -> q1'', ''Read 'b': q1 -> q2'',
                    ''Read 'c': q2 -> q0'', msg_rejected],
           traceCount = 5\<rparr>)"
proof -
  from createSampleFSM_shape [OF assms]
  have sh: "sample_shape (createSampleFSM f0)" and cur: "currentState (createSampleFSM f0) = 0"
    by simp_all
  have "(createSampleFSM f0)\<lparr>currentState := currentState (createSampleFSM f0)\<rparr> =
        createSampleFSM f0"
    by simp
  with cur have "(createSampleFSM f0)\<lparr>currentState := 0\<rparr> = createSampleFSM f0"
    by simp
  with shape_abc [OF sh] show ?thesis by simp
qed

lemma input98_length: "length input98 = 98"
  by (simp add: input98_def length_concat sum_list_replicate)

text \<open>
  One round \<open>abc\<close> brings the sample automaton back to q0 with three more records. The
  input of 98 characters fills the trace to its last entry; one character more and the
  verdict is written at index \<^verbatim>\<open>MAX_TRACE\<close>.
\<close>

lemma shape_cycle:
  assumes "sample_shape g" "0 \<le> traceCount r" "traceCount r + 3 \<le> MAX_TRACE"
  shows "scan chk (g\<lparr>currentState := 0\<rparr>) r (''abc'' @ w) =
         scan chk (g\<lparr>currentState := 0\<rparr>)
           (r\<lparr>trace := trace r @ cycle_records, traceCount := traceCount r + 3\<rparr>) w"
  using assms(2,3)
  by (simp add: sample_eval [OF assms(1)] engine_defs cycle_records_def add.commute)

lemma shape_cycles:
  assumes "sample_shape g"
  shows "0 \<le> traceCount r \<Longrightarrow> traceCount r + 3 * int n \<le> MAX_TRACE \<Longrightarrow>
         scan chk (g\<lparr>currentState := 0\<rparr>) r (concat (replicate n ''abc'') @ w) =
         scan chk (g\<lparr>currentState := 0\<rparr>)
           (r\<lparr>trace := trace r @ concat (replicate n cycle_records),
              traceCount := traceCount r + 3 * int n\<rparr>) w"
proof (induction n arbitrary: r)
  case 0
  then show ?case by simp
next
  case (Suc n)
  let ?r = "r\<lparr>trace := trace r @ cycle_records, traceCount := traceCount r + 3\<rparr>"
  from Suc.prems have "scan chk (g\<lparr>currentState := 0\<rparr>) r (''abc'' @ concat (replicate n ''abc'') @ w) =
      scan chk (g\<lparr>currentState := 0\<rparr>) ?r (concat (replicate n ''abc'') @ w)"
    by (intro shape_cycle assms) simp_all
  also from Suc.prems have "\<dots> = scan chk (g\<lparr>currentState := 0\<rparr>)
           (?r\<lparr>trace := trace ?r @ concat (replicate n cycle_records),
              traceCount := traceCount ?r + 3 * int n\<rparr>) w"
    by (intro Suc.IH) simp_all
  finally show ?case
    by (simp add: algebra_simps)
qed

lemma shape_start:
  assumes "sample_shape g"
  shows "processString_with chk g w =
           (case scan chk (g\<lparr>currentState := 0\<rparr>)
                   \<lparr>accepted = 0, trace = [''Starting at state: q0''], traceCount = 1\<rparr> w of
              Inl e \<Rightarrow> Inl e
            | Inr (Returned g' r) \<Rightarrow> Inr (g', r)
            | Inr (Scanned g' r) \<Rightarrow> verdict chk g' r)"
  using processString_scan [OF sample_shape_facts(1,2) [OF assms], where w = w and chk = chk]
  by (simp add: resetFSM_def start_result_def msg_start_def sample_shape_facts [OF assms])

lemma shape_32_cycles:
  assumes "sample_shape g"
  shows "scan chk (g\<lparr>currentState := 0\<rparr>)
           \<lparr>accepted = 0, trace = [''Starting at state: q0''], traceCount = 1\<rparr>
           (concat (replicate 32 ''abc'') @ w) =
         scan chk (g\<lparr>currentState := 0\<rparr>)
           \<lparr>accepted = 0,
            trace = ''Starting at state: q0'' # concat (replicate 32 cycle_records),
            traceCount = 97\<rparr> w"
proof -
  let ?r1 = "\<lparr>accepted = 0, trace = [''Starting at state: q0''], traceCount = 1\<rparr>"
  have "scan chk (g\<lparr>currentState := 0\<rparr>) ?r1 (concat (replicate 32 ''abc'') @ w) =
        scan chk (g\<lparr>currentState := 0\<rparr>)
          (?r1\<lparr>trace := trace ?r1 @ concat (replicate 32 cycle_records),
               traceCount := traceCount ?r1 + 3 * int 32\<rparr>) w"
    by (intro shape_cycles assms) (simp_all add: MAX_TRACE_def)
  moreover have "?r1\<lparr>trace := trace ?r1 @ concat (replicate 32 cycle_records),
               traceCount := traceCount ?r1 + 3 * int 32\<rparr> =
      \<lparr>accepted = 0,
       trace = ''Starting at state: q0'' # concat (replicate 32 cycle_records),
       traceCount = 97\<rparr>"
    by simp
  ultimately show ?thesis by (simp only:)
qed

lemma shape_input98:
  assumes "sample_shape g"
  shows "\<exists>r. processString_with chk g input98 = Inr (g\<lparr>currentState := 2\<rparr>, r) \<and> traceCount r = 100 \<and>
           accepted r = 1"
    and "processString_with chk g (input98 @ ''c'') = Inl (TraceOverflow 100)"
proof -
  have "input98 @ ''c'' = concat (replicate 32 ''abc'') @ ''abc''"
    by (simp only: input98_def append_assoc) simp
  then show "processString_with chk g (input98 @ ''c'') = Inl (TraceOverflow 100)"
    unfolding shape_start [OF assms]
    by (simp only: shape_32_cycles [OF assms])
       (simp add: sample_eval [OF assms] engine_defs)
  show "\<exists>r. processString_with chk g input98 = Inr (g\<lparr>currentState := 2\<rparr>, r) \<and> traceCount r = 100 \<and>
           accepted r = 1"
    unfolding shape_start [OF assms] input98_def shape_32_cycles [OF assms]
    by (simp add: sample_eval [OF assms] engine_defs)
qed

section \<open>Runs of the sample automaton\<close>

text \<open>
  Claim C1, amended. For the automaton that \<^verbatim>\<open>createSampleFSM\<close> builds, in whatever
  memory it is given, \<^verbatim>\<open>processString\<close> on \<open>abc\<close> returns \<^verbatim>\<open>accepted = 0\<close>: the cursor
  ends on q0, which is not accepting. The trace has exactly five records: the start
  record, the three reads, and the verdict record, whose text is the three bytes of
  the UTF-8 cross followed by \<open>String REJECTED\<close>. The automaton comes back as it was,
  since \<^verbatim>\<open>createSampleFSM\<close> had left the cursor on q0 too.
\<close>

theorem sample_abc_rejected:
  "fsm_layout f0 \<Longrightarrow>
   processString (createSampleFSM f0) ''abc'' =
     Inr (createSampleFSM f0,
          \<lparr>accepted = 0,
           trace = [''Starting at state: q0'', ''Read 'a': q0 -> q1'', ''Read 'b': q1 -> q2'',
                    ''Read 'c': q2 -> q0'',
                    [CHR 0xE2, CHR 0x9C, CHR 0x97] @ '' String REJECTED''],
           traceCount = 5\<rparr>)"
  by (simp add: processString_def created_abc msg_rejected_def)

text \<open>The same run in zeroed memory.\<close>

theorem sample_abc_rejected_witness:
  "processString sampleFSM ''abc'' =
     Inr (sampleFSM,
          \<lparr>accepted = 0,
           trace = [''Starting at state: q0'', ''Read 'a': q0 -> q1'', ''Read 'b': q1 -> q2'',
                    ''Read 'c': q2 -> q0'',
                    [CHR 0xE2, CHR 0x9C, CHR 0x97] @ '' String REJECTED''],
           traceCount = 5\<rparr>)"
  using sample_abc_rejected [OF blank_layout] by (simp add: sampleFSM_def)

text \<open>
  The last record of that trace is not the bare word \<open>REJECTED\<close>, so the trace is not
  the list of five records that claim C1 gives.
\<close>

theorem sample_abc_trace_counterexample:
  "trace_of (processString sampleFSM ''abc'') \<noteq>
     Some [''Starting at state: q0'', ''Read 'a': q0 -> q1'', ''Read 'b': q1 -> q2'',
           ''Read 'c': q2 -> q0'', ''REJECTED'']"
  using created_abc [OF blank_layout, where chk = False]
  by (simp add: processString_def sampleFSM_def trace_of_def msg_rejected_def)

text \<open>
  The three states that this run reads are registered: the run that watches its reads
  returns the same.
\<close>

lemma sample_abc_watched:
  "fsm_layout f0 \<Longrightarrow>
   processString_checked (createSampleFSM f0) ''abc'' =
     processString (createSampleFSM f0) ''abc''"
  by (simp add: processString_checked_def processString_def created_abc)

section \<open>The length of the trace\<close>

text \<open>
  Claim C2. For a well-formed automaton with valid indices and an input of length
  \<open>n\<close> with \<open>n + 2 \<le> MAX_TRACE\<close>, \<^verbatim>\<open>processString\<close> returns a result. If the loop
  scans the whole input, the trace has \<open>n + 2\<close> records. If the input is rejected at
  index \<open>i\<close>, the trace has \<open>i + 2\<close> records, \<^verbatim>\<open>accepted\<close> is 0, and the result is the
  same whatever follows the character at \<open>i\<close>: no record is about a later character.
  One of the two always happens.
\<close>

theorem trace_length:
  assumes "well_formed fsm" "valid_indices fsm"
    and "int (length w) + 2 \<le> MAX_TRACE"
  shows "\<exists>fsm' r. processString fsm w = Inr (fsm', r) \<and>
           (scans_all fsm w \<longrightarrow>
              traceCount r = int (length w) + 2 \<and> length (trace r) = length w + 2) \<and>
           (\<forall>i. rejects_at fsm w i \<longrightarrow>
              traceCount r = int i + 2 \<and> length (trace r) = i + 2 \<and> accepted r = 0 \<and>
              (\<forall>v. processString fsm (take (Suc i) w @ v) = Inr (fsm', r))) \<and>
           (scans_all fsm w \<or> (\<exists>i. rejects_at fsm w i))"
proof -
  have ps: "processString fsm u =
      (case scan False (resetFSM fsm) (start_result fsm) u of
         Inl e \<Rightarrow> Inl e
       | Inr (Returned g r) \<Rightarrow> Inr (g, r)
       | Inr (Scanned g r) \<Rightarrow> verdict False g r)" for u
    unfolding processString_def by (rule processString_scan [OF assms(1,2)])
  have rej: "\<exists>g r. traceCount r = int i + 2 \<and> length (trace r) = i + 2 \<and> accepted r = 0 \<and>
           (\<forall>v. processString fsm (take (Suc i) w @ v) = Inr (g, r)) \<and>
           scan False (resetFSM fsm) (start_result fsm) w = Inr (Returned g r)"
    if "rejects_at fsm w i" for i
  proof -
    from rejects_at_scan [OF assms that] obtain g r where
      gr: "traceCount r = int i + 2" "length (trace r) = i + 2" "accepted r = 0"
      and sc: "\<And>v. scan False (resetFSM fsm) (start_result fsm) (take (Suc i) w @ v) =
                  Inr (Returned g r)"
      by blast
    from sc [of "drop (Suc i) w"]
    have "scan False (resetFSM fsm) (start_result fsm) w = Inr (Returned g r)"
      by simp
    moreover have "processString fsm (take (Suc i) w @ v) = Inr (g, r)" for v
      by (simp add: ps sc)
    ultimately show ?thesis using gr by blast
  qed
  from assms(3) have "1 + int (length w) < MAX_TRACE" by simp
  from start_scan_no_fault [OF assms(1,2) this]
  obtain ex where ex: "scan False (resetFSM fsm) (start_result fsm) w = Inr ex"
    and cur: "cursor_ok (exit_fsm ex)"
    by blast
  show ?thesis
  proof (cases ex)
    case (Scanned g r2)
    with ex have sc: "scan False (resetFSM fsm) (start_result fsm) w = Inr (Scanned g r2)"
      by simp
    then have all: "scans_all fsm w"
      by (simp add: scans_all_def)
    have none: "\<not> rejects_at fsm w i" for i
      using rej [of i] sc by auto
    from scan_scanned_count [OF sc] have r2: "traceCount r2 = 1 + int (length w)"
      "length (trace r2) = 1 + length w"
      by (simp_all add: start_result_def)
    with assms(3) have room: "0 \<le> traceCount r2" "traceCount r2 < MAX_TRACE"
      by simp_all
    from assms(1) have "well_formed (resetFSM fsm)"
      by (simp add: resetFSM_def)
    with sc have "well_formed (exit_fsm (Scanned g r2))"
      by (rule scan_keeps_wf)
    then have "well_formed g" by simp
    moreover from cur Scanned have "cursor_ok g" by simp
    ultimately obtain r where v: "verdict False g r2 = Inr (g, r)"
      and r: "traceCount r = traceCount r2 + 1" "length (trace r) = length (trace r2) + 1"
      using verdict_ok [OF _ _ room, of g] by simp
    from v sc have "processString fsm w = Inr (g, r)"
      by (simp add: ps)
    with r r2 all none show ?thesis by simp
  next
    case (Returned g r)
    with ex have sc: "scan False (resetFSM fsm) (start_result fsm) w = Inr (Returned g r)"
      by simp
    then have noall: "\<not> scans_all fsm w"
      by (simp add: scans_all_def)
    from scan_returned_index [OF sc] have some: "\<exists>i. rejects_at fsm w i"
      by (auto simp: rejects_at_def)
    from sc have res: "processString fsm w = Inr (g, r)"
      by (simp add: ps)
    have "traceCount r = int i + 2 \<and> length (trace r) = i + 2 \<and> accepted r = 0 \<and>
          (\<forall>v. processString fsm (take (Suc i) w @ v) = Inr (g, r))"
      if "rejects_at fsm w i" for i
      using rej [OF that] sc by auto
    with res noall some show ?thesis by blast
  qed
qed

text \<open>
  The sample automaton scans \<open>abc\<close> to its end, five records; it rejects \<open>ac\<close> at
  index 1, three records, and \<open>acb\<close> gives the same result.
\<close>

theorem trace_length_witness:
  "(\<exists>fsm' r. processString sampleFSM ''abc'' = Inr (fsm', r) \<and>
      traceCount r = 5 \<and> length (trace r) = 5) \<and>
   (\<exists>fsm' r. processString sampleFSM ''ac'' = Inr (fsm', r) \<and>
      traceCount r = 3 \<and> length (trace r) = 3 \<and> accepted r = 0 \<and>
      processString sampleFSM ''acb'' = Inr (fsm', r))"
proof -
  have fit: "int (length ''abc'') + 2 \<le> MAX_TRACE" "int (length ''ac'') + 2 \<le> MAX_TRACE"
    by (simp_all add: MAX_TRACE_def)
  have all: "scans_all sampleFSM ''abc''"
    using sampleFSM_shape(1) by (rule sample_scans_all_abc)
  have rej: "rejects_at sampleFSM ''ac'' 1"
    using sampleFSM_shape(1) by (rule sample_rejects_ac)
  from trace_length [OF sampleFSM_wf fit(1)] all
  have "\<exists>fsm' r. processString sampleFSM ''abc'' = Inr (fsm', r) \<and>
      traceCount r = 5 \<and> length (trace r) = 5"
    by auto
  moreover from trace_length [OF sampleFSM_wf fit(2)] rej
  obtain fsm' r where "processString sampleFSM ''ac'' = Inr (fsm', r)"
    "traceCount r = int 1 + 2" "length (trace r) = 1 + 2" "accepted r = 0"
    "\<forall>v. processString sampleFSM (take (Suc 1) ''ac'' @ v) = Inr (fsm', r)"
    by blast
  then have "processString sampleFSM ''ac'' = Inr (fsm', r) \<and>
      traceCount r = 3 \<and> length (trace r) = 3 \<and> accepted r = 0 \<and>
      processString sampleFSM (take (Suc 1) ''ac'' @ ''b'') = Inr (fsm', r)"
    by simp
  then have "\<exists>fsm' r. processString sampleFSM ''ac'' = Inr (fsm', r) \<and>
      traceCount r = 3 \<and> length (trace r) = 3 \<and> accepted r = 0 \<and>
      processString sampleFSM ''acb'' = Inr (fsm', r)"
    by auto
  ultimately show ?thesis by blast
qed

section \<open>The alphabet only grows\<close>

text \<open>
  Claim C3, amended. For every sequence of \<^verbatim>\<open>addTransition\<close> calls on an automaton with
  the layout and the counts of the program: a symbol in the alphabet before is in it
  afterwards; a symbol in the alphabet afterwards was in it before or was passed in one
  of the calls; a symbol passed in a call made while the transition table was below
  \<^verbatim>\<open>MAX_TRANSITIONS\<close>, and while the alphabet held the symbol already or was below
  \<^verbatim>\<open>MAX_ALPHABET\<close>, is in the alphabet afterwards; and the alphabet of a freshly
  initialised automaton is empty.
\<close>

theorem alphabet_grows:
  assumes "fsm_layout fsm" "counts_ok fsm"
  shows "(charInAlphabet fsm s = 1 \<longrightarrow> charInAlphabet (addTransitions fsm calls) s = 1) \<and>
         (charInAlphabet (addTransitions fsm calls) s = 1 \<longrightarrow>
            charInAlphabet fsm s = 1 \<or> s \<in> (\<lambda>(a, b, c). c) ` set calls) \<and>
         (\<forall>pre a b post.
            calls = pre @ (a, b, s) # post \<and>
            transitionCount (addTransitions fsm pre) < MAX_TRANSITIONS \<and>
            (charInAlphabet (addTransitions fsm pre) s = 1 \<or>
             alphabetSize (addTransitions fsm pre) < MAX_ALPHABET) \<longrightarrow>
            charInAlphabet (addTransitions fsm calls) s = 1) \<and>
         charInAlphabet (initializeFSM fsm) s = 0"
proof (intro conjI allI impI)
  have after: "charInAlphabet (addTransitions fsm cs) s = 1 \<longleftrightarrow>
      s \<in> set (alphabet_syms (addTransitions fsm cs))" for cs
    using addTransitions_wf [OF assms, of cs] by (simp add: charInAlphabet_wf)
  have before: "charInAlphabet fsm s = 1 \<longleftrightarrow> s \<in> set (alphabet_syms fsm)"
    using assms by (simp add: charInAlphabet_wf)
  show "charInAlphabet (addTransitions fsm calls) s = 1" if "charInAlphabet fsm s = 1"
    using that syms_grow [OF assms, of calls] by (auto simp: after before)
  show "charInAlphabet fsm s = 1 \<or> s \<in> (\<lambda>(a, b, c). c) ` set calls"
    if "charInAlphabet (addTransitions fsm calls) s = 1"
    using that syms_only_passed [OF assms, of calls] by (auto simp: after before)
  show "charInAlphabet (initializeFSM fsm) s = 0"
    by (rule fresh_alphabet)
  fix pre a b post
  assume h: "calls = pre @ (a, b, s) # post \<and>
            transitionCount (addTransitions fsm pre) < MAX_TRANSITIONS \<and>
            (charInAlphabet (addTransitions fsm pre) s = 1 \<or>
             alphabetSize (addTransitions fsm pre) < MAX_ALPHABET)"
  let ?g = "addTransitions fsm pre"
  from addTransitions_wf [OF assms, of pre] have g: "fsm_layout ?g" "counts_ok ?g"
    by simp_all
  from h have "s \<in> set (alphabet_syms (addTransition ?g a b s))"
    by (intro syms_registered g) simp_all
  moreover have "fsm_layout (addTransition ?g a b s)" "counts_ok (addTransition ?g a b s)"
    using g by (simp_all add: addTransition_layout addTransition_counts)
  then have "set (alphabet_syms (addTransition ?g a b s)) \<subseteq>
      set (alphabet_syms (addTransitions (addTransition ?g a b s) post))"
    by (rule syms_grow)
  moreover from h have "addTransitions fsm calls = addTransitions (addTransition ?g a b s) post"
    by (simp add: addTransitions_append)
  ultimately have "s \<in> set (alphabet_syms (addTransitions fsm calls))"
    by auto
  then show "charInAlphabet (addTransitions fsm calls) s = 1"
    by (simp only: after)
qed

text \<open>
  After the twenty-seven calls on a fresh automaton, \<open>a\<close>, passed first, is in the
  alphabet, and \<open>B\<close>, never passed, is not.
\<close>

theorem alphabet_grows_witness:
  "charInAlphabet (addTransitions (initializeFSM blankFSM) calls27) (CHR ''a'') = 1 \<and>
   charInAlphabet (addTransitions (initializeFSM blankFSM) calls27) (CHR ''B'') \<noteq> 1"
proof -
  let ?f = "initializeFSM blankFSM"
  have first: "calls27 = [] @ (0, 0, CHR ''a'') # tl calls27 \<and>
      transitionCount (addTransitions ?f []) < MAX_TRANSITIONS \<and>
      (charInAlphabet (addTransitions ?f []) (CHR ''a'') = 1 \<or>
       alphabetSize (addTransitions ?f []) < MAX_ALPHABET)"
    by (simp add: calls27_def fresh_blank max_defs)
  from alphabet_grows [OF fresh_blank(1,2), of "CHR ''a''" calls27] first
  have "charInAlphabet (addTransitions ?f calls27) (CHR ''a'') = 1"
    by blast
  moreover have "charInAlphabet ?f (CHR ''B'') \<noteq> 1"
    by (simp add: fresh_alphabet)
  moreover have "CHR ''B'' \<notin> (\<lambda>(a, b, c). c) ` set calls27"
    by (simp add: calls27_def)
  with alphabet_grows [OF fresh_blank(1,2), of "CHR ''B''" calls27] calculation(2)
  have "charInAlphabet (addTransitions ?f calls27) (CHR ''B'') \<noteq> 1"
    by blast
  ultimately show ?thesis by simp
qed

text \<open>
  \<open>A\<close> is passed in the twenty-seventh call, when the alphabet holds twenty-six
  symbols: \<^verbatim>\<open>addToAlphabet\<close> drops it, and \<^verbatim>\<open>charInAlphabet\<close> is 0 for a symbol that was
  passed to \<^verbatim>\<open>addTransition\<close>.
\<close>

theorem alphabet_full_counterexample:
  "(0, 0, CHR ''A'') \<in> set calls27 \<and>
   charInAlphabet (addTransitions (initializeFSM blankFSM) calls27) (CHR ''A'') = 0"
proof -
  let ?f = "initializeFSM blankFSM"
  have "transitionCount ?f + int (length calls27) \<le> MAX_TRANSITIONS"
    by (simp add: fresh_blank calls27_def max_defs)
  from addTransitions_syms [OF fresh_blank(1,2) this]
  have "alphabet_syms (addTransitions ?f calls27) =
      foldl register_sym [] ''abcdefghijklmnopqrstuvwxyzA''"
    by (simp add: fresh_blank calls27_def)
  also have "\<dots> = ''abcdefghijklmnopqrstuvwxyz''"
    by (simp add: register_sym_def MAX_ALPHABET_def)
  finally have "alphabet_syms (addTransitions ?f calls27) = ''abcdefghijklmnopqrstuvwxyz''" .
  moreover from addTransitions_wf [OF fresh_blank(1,2), of calls27]
  have "charInAlphabet (addTransitions ?f calls27) (CHR ''A'') =
      (if CHR ''A'' \<in> set (alphabet_syms (addTransitions ?f calls27)) then 1 else 0)"
    by (simp add: charInAlphabet_wf)
  ultimately show ?thesis
    by (simp add: calls27_def)
qed

section \<open>Runs over unregistered slots\<close>

text \<open>
  \<^verbatim>\<open>processString\<close> reads a slot of \<^verbatim>\<open>states\<close> whether a state was registered there or
  not. In zeroed memory such a slot holds the empty name and is not accepting. So the
  run of the automaton without states returns two records, and the run of the automaton
  with the stray transition follows it on \<open>a\<close> from slot 0 to slot 7. The run that
  watches its reads stops at the first of these reads.
\<close>

lemma empty_facts:
  "well_formed emptyFSM"
  "states emptyFSM = replicate 100 \<lparr>name = replicate 50 NUL, isAccepting = 0\<rparr>"
  "stateCount emptyFSM = 0" "initialState emptyFSM = 0" "currentState emptyFSM = 0"
  "transitionCount emptyFSM = 0" "alphabet_syms emptyFSM = []"
  "registered_transitions emptyFSM = []"
  unfolding emptyFSM_def
  by (simp_all add: initialize_well_formed blank_layout fresh_blank)
     (simp_all add: initializeFSM_def blankFSM_def registered_transitions_def)

lemma stray_facts:
  "well_formed strayFSM"
  "states strayFSM = replicate 100 \<lparr>name = replicate 50 NUL, isAccepting = 0\<rparr>"
  "stateCount strayFSM = 0" "initialState strayFSM = 0" "currentState strayFSM = 0"
  "transitionCount strayFSM = 1"
  "transitions strayFSM ! 0 = \<lparr>fromState = 0, toState = 7, symbol = CHR ''a''\<rparr>"
  "alphabet_syms strayFSM = ''a''"
  "registered_transitions strayFSM = [\<lparr>fromState = 0, toState = 7, symbol = CHR ''a''\<rparr>]"
proof -
  have room: "transitionCount emptyFSM < MAX_TRANSITIONS"
    by (simp add: empty_facts MAX_TRANSITIONS_def)
  note eff = addTransition_effect [OF empty_facts(1) room, of 0 7 "CHR ''a''"]
  from eff(1) show "well_formed strayFSM"
    by (simp add: strayFSM_def)
  show "states strayFSM = replicate 100 \<lparr>name = replicate 50 NUL, isAccepting = 0\<rparr>"
    "stateCount strayFSM = 0" "initialState strayFSM = 0" "currentState strayFSM = 0"
    by (simp_all add: strayFSM_def addTransition_other_fields empty_facts)
  from eff(4) show tc: "transitionCount strayFSM = 1"
    by (simp add: strayFSM_def empty_facts)
  from eff(5) show rt: "registered_transitions strayFSM =
      [\<lparr>fromState = 0, toState = 7, symbol = CHR ''a''\<rparr>]"
    by (simp add: strayFSM_def empty_facts)
  with registered_transition_nth [of 0 strayFSM] tc
  show "transitions strayFSM ! 0 = \<lparr>fromState = 0, toState = 7, symbol = CHR ''a''\<rparr>"
    by simp
  from eff(6) show "alphabet_syms strayFSM = ''a''"
    by (simp add: strayFSM_def empty_facts register_sym_def MAX_ALPHABET_def)
qed

lemma in_array_views:
  "indices_in_array fsm \<longleftrightarrow>
     0 \<le> initialState fsm \<and> initialState fsm < MAX_STATES \<and>
     list_all (\<lambda>t. 0 \<le> toState t \<and> toState t < MAX_STATES) (registered_transitions fsm)"
  "valid_indices fsm \<longleftrightarrow>
     0 \<le> initialState fsm \<and> initialState fsm < stateCount fsm \<and>
     list_all (\<lambda>t. 0 \<le> toState t \<and> toState t < stateCount fsm) (registered_transitions fsm)"
  by (simp_all add: indices_in_array_def valid_indices_def registered_transitions_def)

lemma empty_in_array:
  "fsm_layout emptyFSM" "counts_ok emptyFSM" "slots_terminated emptyFSM"
  "indices_in_array emptyFSM" "\<not> valid_indices emptyFSM"
  using empty_facts(1)
  by (simp_all add: well_formed_def slots_terminated_def in_array_views list_all_iff
        empty_facts MAX_STATES_def)

lemma stray_in_array:
  "fsm_layout strayFSM" "counts_ok strayFSM" "slots_terminated strayFSM"
  "indices_in_array strayFSM" "\<not> valid_indices strayFSM"
  using stray_facts(1)
  by (simp_all add: well_formed_def slots_terminated_def in_array_views list_all_iff
        stray_facts MAX_STATES_def)

lemma blank_slot:
  assumes "states g = replicate 100 \<lparr>name = replicate 50 NUL, isAccepting = 0\<rparr>"
    and "0 \<le> i" "i < 100"
  shows "state_at False (g\<lparr>currentState := x\<rparr>) i =
           Inr \<lparr>name = replicate 50 NUL, isAccepting = 0\<rparr>"
    and "name_at False (g\<lparr>currentState := x\<rparr>) i = Inr []"
proof -
  from assms show s: "state_at False (g\<lparr>currentState := x\<rparr>) i =
      Inr \<lparr>name = replicate 50 NUL, isAccepting = 0\<rparr>"
    by (simp add: state_at_def MAX_STATES_def)
  have "c_str (replicate 50 NUL) = []"
    by (simp add: c_str_def)
  with s show "name_at False (g\<lparr>currentState := x\<rparr>) i = Inr []"
    by (simp add: name_at_def)
qed

lemma unregistered_slot:
  assumes "stateCount g = 0" "0 \<le> i" "i < 100"
  shows "name_at True (g\<lparr>currentState := x\<rparr>) i = Inl (StateUnregistered i)"
  using assms by (simp add: name_at_def state_at_def MAX_STATES_def)

lemma empty_run:
  "processString emptyFSM [] =
     Inr (emptyFSM,
          \<lparr>accepted = 0, trace = [''Starting at state: '', msg_rejected], traceCount = 2\<rparr>)"
proof -
  have "emptyFSM\<lparr>currentState := currentState emptyFSM\<rparr> = emptyFSM"
    by simp
  then have same: "emptyFSM\<lparr>currentState := 0\<rparr> = emptyFSM"
    by (simp add: empty_facts)
  have "processString emptyFSM [] =
     Inr (emptyFSM\<lparr>currentState := 0\<rparr>,
          \<lparr>accepted = 0, trace = [''Starting at state: '', msg_rejected], traceCount = 2\<rparr>)"
    by (simp add: processString_def processString_with_def empty_facts
          blank_slot [OF empty_facts(2)] engine_defs)
  with same show ?thesis by simp
qed

lemma empty_run_watched: "processString_checked emptyFSM [] = Inl (StateUnregistered 0)"
  by (simp add: processString_checked_def processString_with_def resetFSM_def empty_facts
        unregistered_slot [OF empty_facts(3)])

lemma stray_charInAlphabet:
  "charInAlphabet (strayFSM\<lparr>currentState := x\<rparr>) c = (if c = CHR ''a'' then 1 else 0)"
proof -
  from stray_facts(1)
  have "fsm_layout (strayFSM\<lparr>currentState := x\<rparr>)" "counts_ok (strayFSM\<lparr>currentState := x\<rparr>)"
    by (simp_all add: well_formed_def)
  then show ?thesis
    by (simp add: charInAlphabet_wf stray_facts)
qed

lemma stray_findTransition:
  "findTransition (strayFSM\<lparr>currentState := x\<rparr>) cur c =
     (if cur = 0 \<and> c = CHR ''a'' then 0 else -1)"
  by (simp add: findTransition_def findTransition_loop.simps stray_facts)

lemma stray_run:
  "processString (strayFSM\<lparr>currentState := x\<rparr>) ''a'' =
     Inr (strayFSM\<lparr>currentState := 7\<rparr>,
          \<lparr>accepted = 0,
           trace = [''Starting at state: '', ''Read '' @ [CHR 0x27, CHR ''a'', CHR 0x27] @ '':  -> '',
                    msg_rejected],
           traceCount = 3\<rparr>)"
  by (simp add: processString_def processString_with_def stray_facts stray_charInAlphabet
        stray_findTransition blank_slot [OF stray_facts(2)] engine_defs)

lemma stray_run_watched:
  "processString_checked strayFSM ''a'' = Inl (StateUnregistered 0)"
  by (simp add: processString_checked_def processString_with_def resetFSM_def stray_facts
        unregistered_slot [OF stray_facts(3)])

section \<open>Determinism and frame of a run\<close>



text \<open>
  On the 99 characters of 33 rounds \<open>abc\<close> the sample automaton fills the trace with
  the start record and 99 reads, and the verdict is written at index \<^verbatim>\<open>MAX_TRACE\<close>,
  outside the trace, from whichever cursor the call starts.
\<close>

lemma sample_overflow_any_cursor:
  "length (input98 @ ''c'') = 99 \<and>
   processString sampleFSM (input98 @ ''c'') = Inl (TraceOverflow 100) \<and>
   processString (sampleFSM\<lparr>currentState := 2\<rparr>) (input98 @ ''c'') = Inl (TraceOverflow 100)"
proof -
  have "sample_shape (sampleFSM\<lparr>currentState := 2\<rparr>)"
    using sampleFSM_shape(1) by (simp add: sample_shape_def)
  from shape_input98(2) [OF this, where chk = False]
    shape_input98(2) [OF sampleFSM_shape(1), where chk = False]
  show ?thesis
    by (simp add: processString_def input98_length)
qed

text \<open>
  Claim C5, amended. A call of \<^verbatim>\<open>processString\<close> that returns leaves the states, the
  state count, the transitions, the transition count, the alphabet, its size and the
  initial state as they were: the automaton it leaves differs from the one it was given
  in \<^verbatim>\<open>currentState\<close> at most. This holds for every automaton and every input, whether
  the slots read are registered or not. The call returns when the input has at most
  \<open>MAX_TRACE - 2\<close> characters and the automaton is well formed with valid indices, or
  has a terminated name in every slot and its indices inside the array.
\<close>

theorem processString_frame:
  "(processString fsm w = Inr (fsm', r) \<longrightarrow>
      states fsm' = states fsm \<and> stateCount fsm' = stateCount fsm \<and>
      transitions fsm' = transitions fsm \<and> transitionCount fsm' = transitionCount fsm \<and>
      alphabet fsm' = alphabet fsm \<and> alphabetSize fsm' = alphabetSize fsm \<and>
      initialState fsm' = initialState fsm \<and>
      fsm' = fsm\<lparr>currentState := currentState fsm'\<rparr>) \<and>
   ((well_formed fsm \<and> valid_indices fsm \<or>
     fsm_layout fsm \<and> counts_ok fsm \<and> slots_terminated fsm \<and> indices_in_array fsm) \<and>
    int (length w) \<le> MAX_TRACE - 2 \<longrightarrow>
      (\<exists>g s. processString fsm w = Inr (g, s)))"
proof (rule conjI; rule impI)
  assume "processString fsm w = Inr (fsm', r)"
  then have eq: "fsm' = fsm\<lparr>currentState := currentState fsm'\<rparr>"
    unfolding processString_def by (rule processString_cursor_only)
  have "states (fsm\<lparr>currentState := currentState fsm'\<rparr>) = states fsm"
    "stateCount (fsm\<lparr>currentState := currentState fsm'\<rparr>) = stateCount fsm"
    "transitions (fsm\<lparr>currentState := currentState fsm'\<rparr>) = transitions fsm"
    "transitionCount (fsm\<lparr>currentState := currentState fsm'\<rparr>) = transitionCount fsm"
    "alphabet (fsm\<lparr>currentState := currentState fsm'\<rparr>) = alphabet fsm"
    "alphabetSize (fsm\<lparr>currentState := currentState fsm'\<rparr>) = alphabetSize fsm"
    "initialState (fsm\<lparr>currentState := currentState fsm'\<rparr>) = initialState fsm"
    by simp_all
  with eq show "states fsm' = states fsm \<and> stateCount fsm' = stateCount fsm \<and>
      transitions fsm' = transitions fsm \<and> transitionCount fsm' = transitionCount fsm \<and>
      alphabet fsm' = alphabet fsm \<and> alphabetSize fsm' = alphabetSize fsm \<and>
      initialState fsm' = initialState fsm \<and>
      fsm' = fsm\<lparr>currentState := currentState fsm'\<rparr>"
    by metis
next
  assume fit: "(well_formed fsm \<and> valid_indices fsm \<or>
      fsm_layout fsm \<and> counts_ok fsm \<and> slots_terminated fsm \<and> indices_in_array fsm) \<and>
    int (length w) \<le> MAX_TRACE - 2"
  then have len: "int (length w) + 2 \<le> MAX_TRACE"
    by simp
  show "\<exists>g s. processString fsm w = Inr (g, s)"
  proof (cases "well_formed fsm \<and> valid_indices fsm")
    case True
    then have "well_formed fsm" "valid_indices fsm"
      by simp_all
    from processString_no_fault [OF this len, where chk = False] show ?thesis
      unfolding processString_def by blast
  next
    case False
    with fit have "fsm_layout fsm" "counts_ok fsm" "slots_terminated fsm"
      "indices_in_array fsm"
      by auto
    from this len show ?thesis
      by (rule processString_returns)
  qed
qed

text \<open>
  The run of the sample automaton on \<open>ab\<close> moves the cursor from q0 to q2, and nothing
  else. The run of the automaton with the stray transition on \<open>a\<close> moves the cursor
  to the unregistered slot 7, and nothing else; the run of the automaton without
  states on the empty input leaves it as it was.
\<close>

theorem processString_frame_witness:
  "(\<exists>fsm' r. processString sampleFSM ''ab'' = Inr (fsm', r) \<and>
      currentState sampleFSM = 0 \<and> currentState fsm' = 2 \<and>
      states fsm' = states sampleFSM \<and> stateCount fsm' = stateCount sampleFSM \<and>
      transitions fsm' = transitions sampleFSM \<and>
      transitionCount fsm' = transitionCount sampleFSM \<and>
      alphabet fsm' = alphabet sampleFSM \<and> alphabetSize fsm' = alphabetSize sampleFSM \<and>
      initialState fsm' = initialState sampleFSM) \<and>
   (\<exists>fsm' r. processString strayFSM ''a'' = Inr (fsm', r) \<and>
      stateCount strayFSM = 0 \<and> currentState fsm' = 7 \<and>
      states fsm' = states strayFSM \<and> stateCount fsm' = stateCount strayFSM \<and>
      transitions fsm' = transitions strayFSM \<and>
      transitionCount fsm' = transitionCount strayFSM \<and>
      alphabet fsm' = alphabet strayFSM \<and> alphabetSize fsm' = alphabetSize strayFSM \<and>
      initialState fsm' = initialState strayFSM) \<and>
   (\<exists>r. processString emptyFSM [] = Inr (emptyFSM, r) \<and> traceCount r = 2)"
proof -
  have fit: "(well_formed sampleFSM \<and> valid_indices sampleFSM \<or>
      fsm_layout sampleFSM \<and> counts_ok sampleFSM \<and> slots_terminated sampleFSM \<and>
      indices_in_array sampleFSM) \<and>
      int (length ''ab'') \<le> MAX_TRACE - 2"
    by (simp add: sampleFSM_wf MAX_TRACE_def)
  with processString_frame [where fsm = sampleFSM and w = "''ab''"]
  obtain g s where gs: "processString sampleFSM ''ab'' = Inr (g, s)"
    by blast
  with shape_ab [OF sampleFSM_shape(1), where chk = False] have g: "currentState g = 2"
    by (auto simp: processString_def)
  from processString_frame [where fsm = sampleFSM and w = "''ab''" and fsm' = g and r = s] gs g
  have "\<exists>fsm' r. processString sampleFSM ''ab'' = Inr (fsm', r) \<and>
      currentState sampleFSM = 0 \<and> currentState fsm' = 2 \<and>
      states fsm' = states sampleFSM \<and> stateCount fsm' = stateCount sampleFSM \<and>
      transitions fsm' = transitions sampleFSM \<and>
      transitionCount fsm' = transitionCount sampleFSM \<and>
      alphabet fsm' = alphabet sampleFSM \<and> alphabetSize fsm' = alphabetSize sampleFSM \<and>
      initialState fsm' = initialState sampleFSM"
    by (simp add: sampleFSM_shape(2))
  moreover
  have sfit: "(well_formed strayFSM \<and> valid_indices strayFSM \<or>
      fsm_layout strayFSM \<and> counts_ok strayFSM \<and> slots_terminated strayFSM \<and>
      indices_in_array strayFSM) \<and>
      int (length ''a'') \<le> MAX_TRACE - 2"
    by (simp add: stray_in_array MAX_TRACE_def)
  with processString_frame [where fsm = strayFSM and w = "''a''"]
  obtain h t where st: "processString strayFSM ''a'' = Inr (h, t)"
    by blast
  have "strayFSM\<lparr>currentState := currentState strayFSM\<rparr> = strayFSM"
    by simp
  with stray_run [of "currentState strayFSM"] st have h: "currentState h = 7"
    by auto
  from processString_frame [where fsm = strayFSM and w = "''a''" and fsm' = h and r = t] st h
  have "\<exists>fsm' r. processString strayFSM ''a'' = Inr (fsm', r) \<and>
      stateCount strayFSM = 0 \<and> currentState fsm' = 7 \<and>
      states fsm' = states strayFSM \<and> stateCount fsm' = stateCount strayFSM \<and>
      transitions fsm' = transitions strayFSM \<and>
      transitionCount fsm' = transitionCount strayFSM \<and>
      alphabet fsm' = alphabet strayFSM \<and> alphabetSize fsm' = alphabetSize strayFSM \<and>
      initialState fsm' = initialState strayFSM"
    by (simp add: stray_facts(3))
  moreover have "\<exists>r. processString emptyFSM [] = Inr (emptyFSM, r) \<and> traceCount r = 2"
    by (simp add: empty_run)
  ultimately show ?thesis by blast
qed

text \<open>
  Claim C5 as it stands is for every input. On the 99 characters of 33 rounds \<open>abc\<close>
  the call on the sample automaton does not return in the model: it writes the verdict
  at index \<^verbatim>\<open>MAX_TRACE\<close>, past the end of \<^verbatim>\<open>result.trace\<close>, and what that write leaves
  of the memory around \<^verbatim>\<open>result\<close> the program does not say.
\<close>

theorem processString_overflow_counterexample:
  "length (input98 @ ''c'') = 99 \<and>
   (\<forall>fsm' r. processString sampleFSM (input98 @ ''c'') \<noteq> Inr (fsm', r)) \<and>
   processString sampleFSM (input98 @ ''c'') = Inl (TraceOverflow 100)"
  using shape_input98(2) [OF sampleFSM_shape(1), where chk = False]
  by (simp add: processString_def input98_length)

section \<open>Accesses stay in bounds\<close>

text \<open>
  Claim C9. For a well-formed automaton with valid indices and an input of at most
  \<open>MAX_TRACE - 2\<close> characters, the run of \<^verbatim>\<open>processString\<close> that watches its reads
  returns a result, so none of the faults occurs: every state is read at an index that
  is at least 0 and below \<^verbatim>\<open>stateCount\<close>, every name read ends inside its buffer, every
  message fits its entry, and every trace entry is written below \<^verbatim>\<open>MAX_TRACE\<close>. It is
  the result that the program returns. The trace has at most \<open>n + 2\<close> entries and the
  cursor is left on a registered state.
\<close>

theorem processString_in_bounds:
  assumes "well_formed fsm" "valid_indices fsm"
    and "int (length w) \<le> MAX_TRACE - 2"
  shows "\<exists>fsm' r. processString_checked fsm w = Inr (fsm', r) \<and>
           processString fsm w = Inr (fsm', r) \<and>
           0 < traceCount r \<and> traceCount r \<le> int (length w) + 2 \<and>
           traceCount r \<le> MAX_TRACE \<and> length (trace r) = nat (traceCount r) \<and>
           0 \<le> currentState fsm' \<and> currentState fsm' < stateCount fsm"
proof -
  from assms(3) have "int (length w) + 2 \<le> MAX_TRACE" by simp
  from processString_no_fault [OF assms(1,2) this, where chk = True]
  obtain fsm' r where res: "processString_checked fsm w = Inr (fsm', r)" "cursor_ok fsm'"
    "0 < traceCount r" "traceCount r \<le> int (length w) + 2"
    "length (trace r) = nat (traceCount r)"
    unfolding processString_checked_def by blast
  from res(1) have run: "processString fsm w = Inr (fsm', r)"
    by (rule checked_run)
  then have "fsm' = fsm\<lparr>currentState := currentState fsm'\<rparr>"
    unfolding processString_def by (rule processString_cursor_only)
  moreover have "stateCount (fsm\<lparr>currentState := currentState fsm'\<rparr>) = stateCount fsm"
    by simp
  ultimately have "stateCount fsm' = stateCount fsm"
    by metis
  with res run assms(3) show ?thesis
    by (simp add: cursor_ok_def)
qed

text \<open>
  The input of 98 characters on the sample automaton: the call returns, with all
  \<^verbatim>\<open>MAX_TRACE\<close> entries of the trace written.
\<close>

theorem processString_in_bounds_witness:
  "length input98 = 98 \<and>
   (\<exists>fsm' r. processString_checked sampleFSM input98 = Inr (fsm', r) \<and>
      processString sampleFSM input98 = Inr (fsm', r) \<and>
      traceCount r = 100 \<and> length (trace r) = 100 \<and>
      0 \<le> currentState fsm' \<and> currentState fsm' < 3)"
proof -
  have "int (length input98) \<le> MAX_TRACE - 2"
    by (simp add: input98_length MAX_TRACE_def)
  from processString_in_bounds [OF sampleFSM_wf this]
  obtain fsm' r where res: "processString_checked sampleFSM input98 = Inr (fsm', r)"
    "processString sampleFSM input98 = Inr (fsm', r)"
    and r: "length (trace r) = nat (traceCount r)"
    and cur: "0 \<le> currentState fsm'" "currentState fsm' < stateCount sampleFSM"
    by blast
  from shape_input98(1) [OF sampleFSM_shape(1), where chk = False] res(2)
  have "traceCount r = 100"
    by (auto simp: processString_def)
  with res r cur show ?thesis
    by (simp add: input98_length sample_shape_facts(3) [OF sampleFSM_shape(1)])
qed

text \<open>
  The bound is the largest: with 99 characters the verdict does not fit. And the
  premise on the indices is needed: the run on the automaton without states reads
  slot 0, which no \<^verbatim>\<open>addState\<close> has written.
\<close>

lemma sample_trace_overflow:
  "length (input98 @ ''c'') = 99 \<and>
   processString_checked sampleFSM (input98 @ ''c'') = Inl (TraceOverflow 100)"
  using shape_input98(2) [OF sampleFSM_shape(1), where chk = True]
  by (simp add: processString_checked_def input98_length)

lemma unregistered_read:
  "well_formed emptyFSM \<and> \<not> valid_indices emptyFSM \<and>
   processString_checked emptyFSM [] = Inl (StateUnregistered 0)"
  by (simp add: empty_facts empty_run_watched valid_indices_def)

end
